theory Spec2Isabelle
  imports Main "HOL-Library.AList"
begin

section \<open>Python values, exceptions and dictionaries\<close>

text \<open>
  The values a configuration field can hold, seen through the two operations
  \<^verbatim>\<open>construct_simulation_identifier\<close> applies to them:
  \<^verbatim>\<open>isinstance(v, numbers.Number)\<close> and \<^verbatim>\<open>str(v)\<close>. Integers, booleans, strings
  and \<^verbatim>\<open>None\<close> are concrete; any other object (a float, a \<^verbatim>\<open>torch.device\<close>, a
  callable, a dict) is \<open>PyObj n s\<close>, where \<open>n\<close> tells whether it is an instance of
  \<^verbatim>\<open>numbers.Number\<close> and \<open>s\<close> is the text \<^verbatim>\<open>str\<close> returns for it.
\<close>

datatype pyval =
    PyInt int
  | PyBool bool
  | PyStr string
  | PyNone
  | PyObj bool string

datatype exn =
    AttributeError string
  | ValueError string
  | OSError string
  | WorkerError string

text \<open>Decimal rendering, as \<^verbatim>\<open>str\<close> does for a Python \<^verbatim>\<open>int\<close>.\<close>

definition digit_char :: "nat \<Rightarrow> char" where
  "digit_char d = char_of (48 + d)"

fun str_nat :: "nat \<Rightarrow> string" where
  "str_nat n = (if n < 10 then [digit_char n] else str_nat (n div 10) @ [digit_char (n mod 10)])"

definition str_int :: "int \<Rightarrow> string" where
  "str_int i = (if i < 0 then CHR ''-'' # str_nat (nat (- i)) else str_nat (nat i))"

fun is_number :: "pyval \<Rightarrow> bool" where
  "is_number (PyInt i) = True"
| "is_number (PyBool b) = True"
| "is_number (PyStr s) = False"
| "is_number PyNone = False"
| "is_number (PyObj n s) = n"

fun py_str :: "pyval \<Rightarrow> string" where
  "py_str (PyInt i) = str_int i"
| "py_str (PyBool b) = (if b then ''True'' else ''False'')"
| "py_str (PyStr s) = s"
| "py_str PyNone = ''None''"
| "py_str (PyObj n s) = s"

text \<open>
  A Python \<^verbatim>\<open>dict\<close> keeps insertion order: an association list with distinct keys.
  \<open>AList.update\<close> replaces the value of a key that is present, in place, and appends
  a new key at the end, as \<^verbatim>\<open>d[k] = v\<close> does; \<open>AList.delete\<close> is \<^verbatim>\<open>del d[k]\<close>.
\<close>

type_synonym pydict = "(string \<times> pyval) list"

definition dict_update :: "pydict \<Rightarrow> pydict \<Rightarrow> pydict" where
  "dict_update d other = fold (\<lambda>(k, v) acc. AList.update k v acc) other d"

section \<open>Classes and simulation instances\<close>

text \<open>
  A class as \<^verbatim>\<open>append_identifiers\<close> sees it: the answer of \<^verbatim>\<open>is_dataclass(cls)\<close>,
  \<^verbatim>\<open>cls.__annotations__\<close> (field name to annotated type, in declaration order) and
  \<^verbatim>\<open>cls.__bases__\<close>.
\<close>

datatype pyclass = PyClass (is_dataclass: bool) (annotations: pydict) (bases: "pyclass list")

text \<open>
  A simulation instance: its class, its attributes, and what its method
  \<^verbatim>\<open>run(epochs)\<close> does. The training loop behind \<^verbatim>\<open>run\<close> is an external
  collaborator, so it is a field of the instance: it either raises or leaves an
  execution history (\<^verbatim>\<open>simulation.executor.history\<close>, of type \<open>'h\<close>) and the
  attributes the instance has afterwards.
\<close>

record 'h simulation =
  sim_class :: pyclass
  sim_attrs :: pydict
  sim_run :: "int \<Rightarrow> exn + ('h \<times> pydict)"

text \<open>
  \<^verbatim>\<open>simulation.__getattribute__(key)\<close> raises \<^verbatim>\<open>AttributeError\<close> for a name the
  instance does not have.
\<close>

definition getattribute :: "'h simulation \<Rightarrow> string \<Rightarrow> exn + pyval" where
  "getattribute obj key =
     (case map_of (sim_attrs obj) key of
        None \<Rightarrow> Inl (AttributeError key)
      | Some v \<Rightarrow> Inr v)"

definition run :: "'h simulation \<Rightarrow> int \<Rightarrow> exn + ('h \<times> 'h simulation)" where
  "run simulation epochs =
     (case sim_run simulation epochs of
        Inl e \<Rightarrow> Inl e
      | Inr (history, attrs) \<Rightarrow> Inr (history, simulation\<lparr>sim_attrs := attrs\<rparr>))"

text \<open>
  The class \<^verbatim>\<open>Simulation\<close> of \<^verbatim>\<open>core/simulation.py\<close>: a dataclass whose only base is
  \<^verbatim>\<open>object\<close>. Its annotated names are listed in the order of the class body;
  \<^verbatim>\<open>executor_class\<close> and \<^verbatim>\<open>__initialized\<close> carry no annotation.
\<close>

definition object_class :: pyclass where
  "object_class = PyClass False [] []"

definition Simulation_class :: pyclass where
  "Simulation_class = PyClass True
     [(''seed'', PyObj False ''int''),
      (''device'', PyObj False ''torch.device''),
      (''model_factory'', PyObj False ''Callable''),
      (''data'', PyObj False ''Union[str, Callable]''),
      (''n_train'', PyObj False ''int''),
      (''n_valid'', PyObj False ''int''),
      (''loss_function'', PyObj False ''Callable''),
      (''batch_size'', PyObj False ''int''),
      (''_learning_rate'', PyObj False ''int''),
      (''simulation_name'', PyObj False ''str''),
      (''data_factory_kwargs'', PyObj False ''dict''),
      (''model_factory_kwargs'', PyObj False ''dict'')]
     [object_class]"

section \<open>The identifier of a simulation\<close>

text \<open>
  Modelled from the spec: \<^verbatim>\<open>HashableDict\<close> (\<^verbatim>\<open>utils/hashable_dict.py\<close>, not among
  the sources). The specification describes the identifier as an immutable,
  order-insensitive, hashable mapping from field name to normalized value, so the
  insertion order of the dictionary it is built from is forgotten.
\<close>

type_synonym sim_id = "string \<rightharpoonup> pyval"

definition HashableDict :: "pydict \<Rightarrow> sim_id" where
  "HashableDict d = map_of d"

text \<open>
  \<^verbatim>\<open>append_identifiers(cls)\<close>, the local function of
  \<^verbatim>\<open>construct_simulation_identifier\<close>: it updates the dictionary \<open>ident\<close> with the
  annotations of \<open>cls\<close> and then of its bases, recursively, and does nothing (and
  does not look at the bases) for a class that is not a dataclass.
\<close>

fun append_identifiers :: "pyclass \<Rightarrow> pydict \<Rightarrow> pydict" where
  "append_identifiers (PyClass dc ann bs) ident =
     (if dc then fold append_identifiers bs (dict_update ident ann) else ident)"

text \<open>
  The loop over \<^verbatim>\<open>identifier.keys()\<close>: each key is bound to the current value of
  the attribute of that name, replaced by its \<^verbatim>\<open>str\<close> unless it is a number.
\<close>

definition normalize_value :: "pyval \<Rightarrow> pyval" where
  "normalize_value v = (if \<not> is_number v then PyStr (py_str v) else v)"

fun read_fields :: "'h simulation \<Rightarrow> string list \<Rightarrow> pydict \<Rightarrow> exn + pydict" where
  "read_fields obj [] ident = Inr ident"
| "read_fields obj (key # keys) ident =
     (case getattribute obj key of
        Inl e \<Rightarrow> Inl e
      | Inr v \<Rightarrow> read_fields obj keys (AList.update key (normalize_value v) ident))"

text \<open>The renaming of \<^verbatim>\<open>'_learning_rate'\<close> to \<^verbatim>\<open>'learning_rate'\<close>.\<close>

definition rename_learning_rate :: "pydict \<Rightarrow> pydict" where
  "rename_learning_rate ident =
     (case map_of ident ''_learning_rate'' of
        None \<Rightarrow> ident
      | Some v \<Rightarrow> AList.delete ''_learning_rate'' (AList.update ''learning_rate'' v ident))"

definition declared_fields :: "pyclass \<Rightarrow> string list" where
  "declared_fields cls = map fst (append_identifiers cls [])"

definition construct_simulation_identifier :: "'h simulation \<Rightarrow> exn + sim_id" where
  "construct_simulation_identifier simulation =
     (let ident = append_identifiers (sim_class simulation) [] in
      case read_fields simulation (map fst ident) ident of
        Inl e \<Rightarrow> Inl e
      | Inr ident' \<Rightarrow> Inr (HashableDict (rename_learning_rate ident')))"

definition handle_simulation_output :: "'h \<Rightarrow> 'h" where
  "handle_simulation_output simulation_history = simulation_history"

section \<open>Experiments\<close>

text \<open>
  A device is an opaque handle; it is represented by the name it is created from, so
  that \<^verbatim>\<open>torch.device('cpu')\<close> is \<open>torch_device ''cpu''\<close>. A simulation factory is
  any callable taking a seed and a device; building a simulation may raise.
\<close>

type_synonym device = string

definition torch_device :: "string \<Rightarrow> device" where
  "torch_device s = s"

type_synonym 'h factory = "int \<Rightarrow> device \<Rightarrow> exn + 'h simulation"

record 'h Experiment =
  name :: string
  simulation_factories :: "'h factory list"

definition outputs_prefix :: string where
  "outputs_prefix = ''./outputs/''"

text \<open>
  \<^verbatim>\<open>epochs_per_simulation: Union[int, List[int]]\<close>, and the first statement of both
  run methods, which wraps an integer into a one-element list.
\<close>

datatype epochs_arg = EpochsInt int | EpochsList "int list"

fun epochs_list :: "epochs_arg \<Rightarrow> int list" where
  "epochs_list (EpochsInt n) = [n]"
| "epochs_list (EpochsList ns) = ns"

text \<open>
  \<^verbatim>\<open>zip(xs, cycle(ys))\<close>. The iterator \<^verbatim>\<open>cycle(ys)\<close> first yields the elements of
  \<open>ys\<close>, saving them, and then yields the saved elements again and again; it is
  exhausted at once when \<open>ys\<close> is empty. \<open>zip_cycle xs rest saved\<close> is the zip in
  the state where \<open>rest\<close> is what is left of the current pass; \<^verbatim>\<open>zip\<close> asks \<open>xs\<close>
  first and stops as soon as one of the two has no next element.
\<close>

fun zip_cycle :: "'a list \<Rightarrow> 'b list \<Rightarrow> 'b list \<Rightarrow> ('a \<times> 'b) list" where
  "zip_cycle [] rest saved = []"
| "zip_cycle (x # xs) (y # rest) saved = (x, y) # zip_cycle xs rest saved"
| "zip_cycle (x # xs) [] saved =
     (case saved of
        [] \<Rightarrow> []
      | y # rest \<Rightarrow> (x, y) # zip_cycle xs rest saved)"

definition sweep :: "'h Experiment \<Rightarrow> epochs_arg \<Rightarrow> ('h factory \<times> int) list" where
  "sweep exp epochs_per_simulation =
     (let es = epochs_list epochs_per_simulation
      in zip_cycle (simulation_factories exp) es es)"

subsection \<open>The prototype run\<close>



subsection \<open>Jobs, worker pools and the result store\<close>

type_synonym 'h job_args = "'h factory \<times> int \<times> device \<times> int"
type_synonym 'h job_result = "'h \<times> int \<times> device"

text \<open>
  \<^verbatim>\<open>_job\<close>. Switching the executor's printing off changes what the worker prints
  and nothing else, so it has no counterpart here.
\<close>

fun job :: "'h job_args \<Rightarrow> exn + 'h job_result" where
  "job (simulation_factory, seed, dev, epochs) =
     (case simulation_factory seed dev of
        Inl e \<Rightarrow> Inl e
      | Inr simulation \<Rightarrow>
          (case run simulation epochs of
             Inl e \<Rightarrow> Inl e
           | Inr (history, simulation') \<Rightarrow> Inr (history, seed, dev)))"

text \<open>
  A pool of \<^verbatim>\<open>multiprocessing\<close>: its number of processes, the batches of jobs given
  to it by \<^verbatim>\<open>starmap_async\<close>, whether it still accepts work, and whether it has been
  joined. The world holds every pool ever created (a pool's handle is its position),
  the calls of \<^verbatim>\<open>save_to_disk\<close> that succeeded, in order, and two things the
  orchestrator does not control: for each pool, which of the failing jobs of a batch
  reports first (\<open>arrival\<close>), and the paths that cannot be written.
\<close>

datatype pool_state = RUN | CLOSE

record 'h pool =
  processes :: int
  submitted :: "'h job_args list list"
  state :: pool_state
  joined :: bool

type_synonym 'h payload = "sim_id \<times> ('h \<times> int \<times> device) list"

record 'h world =
  pools :: "'h pool list"
  arrival :: "nat \<Rightarrow> nat"
  saved :: "('h payload \<times> string) list"
  unwritable :: "string \<Rightarrow> bool"

definition new_pool :: "int \<Rightarrow> 'h pool" where
  "new_pool n = \<lparr>processes = n, submitted = [], state = RUN, joined = False\<rparr>"

text \<open>\<^verbatim>\<open>context.Pool(processes=n)\<close> raises \<^verbatim>\<open>ValueError\<close> when \<open>n < 1\<close>.\<close>

definition Pool :: "int \<Rightarrow> 'h world \<Rightarrow> (exn + nat) \<times> 'h world" where
  "Pool n w =
     (if n < 1 then (Inl (ValueError ''Number of processes must be at least 1''), w)
      else (Inr (length (pools w)), w\<lparr>pools := pools w @ [new_pool n]\<rparr>))"

text \<open>
  \<^verbatim>\<open>pool.starmap_async(_job, args)\<close> hands the batch to a running pool and returns
  an \<^verbatim>\<open>AsyncResult\<close>, here the outcome of each job of the batch, in the order of
  \<open>args\<close>. Jobs run in worker processes and share nothing with the orchestrator, so
  they do not change the world. A job is assumed to end: a worker that never
  returns has no outcome here.
\<close>

type_synonym 'h async_result = "(exn + 'h job_result) list"

definition starmap_async ::
  "nat \<Rightarrow> 'h job_args list \<Rightarrow> 'h world \<Rightarrow> (exn + 'h async_result) \<times> 'h world" where
  "starmap_async p args w =
     (if state (pools w ! p) \<noteq> RUN then (Inl (ValueError ''Pool not running''), w)
      else (Inr (map job args),
            w\<lparr>pools := (pools w)[p := (pools w ! p)\<lparr>submitted := submitted (pools w ! p) @ [args]\<rparr>]\<rparr>))"

primrec failures :: "(exn + 'a) list \<Rightarrow> exn list" where
  "failures [] = []"
| "failures (r # rs) = (case r of Inl e \<Rightarrow> e # failures rs | Inr v \<Rightarrow> failures rs)"

primrec successes :: "(exn + 'a) list \<Rightarrow> 'a list" where
  "successes [] = []"
| "successes (r # rs) = (case r of Inl e \<Rightarrow> successes rs | Inr v \<Rightarrow> v # successes rs)"

text \<open>
  \<^verbatim>\<open>result.get()\<close> waits for the whole batch. When every job succeeded it returns
  their results in the order of the batch; otherwise it raises the exception of the
  failing job that reported first, the \<open>k\<close>-th of the failing ones.
\<close>

definition get :: "nat \<Rightarrow> (exn + 'a) list \<Rightarrow> exn + 'a list" where
  "get k result =
     (if failures result = [] then Inr (successes result)
      else Inl (failures result ! (k mod length (failures result))))"

definition close :: "nat \<Rightarrow> 'h world \<Rightarrow> 'h world" where
  "close p w = w\<lparr>pools := (pools w)[p := (pools w ! p)\<lparr>state := CLOSE\<rparr>]\<rparr>"

definition join :: "nat \<Rightarrow> 'h world \<Rightarrow> (exn + unit) \<times> 'h world" where
  "join p w =
     (if state (pools w ! p) = RUN then (Inl (ValueError ''Pool is still running''), w)
      else (Inr (), w\<lparr>pools := (pools w)[p := (pools w ! p)\<lparr>joined := True\<rparr>]\<rparr>))"

text \<open>
  Modelled from the spec: \<^verbatim>\<open>save_to_disk\<close> (\<^verbatim>\<open>utils/io.py\<close>, not among the
  sources), the result store: \<^verbatim>\<open>save(payload, path)\<close> is durable, and a persistence
  failure is an exception of the store.
\<close>

definition save_to_disk :: "'h payload \<Rightarrow> string \<Rightarrow> 'h world \<Rightarrow> (exn + unit) \<times> 'h world" where
  "save_to_disk obj file_path w =
     (if unwritable w file_path then (Inl (OSError file_path), w)
      else (Inr (), w\<lparr>saved := saved w @ [(obj, file_path)]\<rparr>))"

subsection \<open>The full run\<close>

text \<open>The first inner loop: a pool for each device.\<close>

fun create_pools :: "int \<Rightarrow> device list \<Rightarrow> nat list \<Rightarrow> 'h world \<Rightarrow> (exn + nat list) \<times> 'h world" where
  "create_pools n_processes_per_device [] ps w = (Inr ps, w)"
| "create_pools n_processes_per_device (dev # devs) ps w =
     (case Pool n_processes_per_device w of
        (Inl e, w') \<Rightarrow> (Inl e, w')
      | (Inr p, w') \<Rightarrow> create_pools n_processes_per_device devs (ps @ [p]) w')"

text \<open>\<^verbatim>\<open>range(n)\<close> for a Python integer: empty when \<open>n \<le> 0\<close>.\<close>

definition py_range :: "int \<Rightarrow> int list" where
  "py_range n = map int [0..<nat n]"

text \<open>The arguments of the jobs of one pool, built by the loop over \<^verbatim>\<open>range(n_runs_per_device)\<close>.\<close>

definition job_arguments :: "'h factory \<Rightarrow> int \<Rightarrow> int \<Rightarrow> nat \<Rightarrow> device \<Rightarrow> 'h job_args list" where
  "job_arguments simulation_factory epochs n_runs_per_device pool_id dev =
     map (\<lambda>i. (simulation_factory, int pool_id * n_runs_per_device + i, dev, epochs))
       (py_range n_runs_per_device)"

text \<open>
  The second inner loop, over \<^verbatim>\<open>enumerate(zip(pools, devices_list))\<close>: one batch per
  pool, and the list of the \<^verbatim>\<open>AsyncResult\<close>s.
\<close>

fun submit_jobs ::
  "'h factory \<Rightarrow> int \<Rightarrow> int \<Rightarrow> (nat \<times> nat \<times> device) list \<Rightarrow> 'h async_result list \<Rightarrow> 'h world \<Rightarrow>
   (exn + 'h async_result list) \<times> 'h world" where
  "submit_jobs simulation_factory epochs n_runs_per_device [] results w = (Inr results, w)"
| "submit_jobs simulation_factory epochs n_runs_per_device ((pool_id, p, dev) # rest) results w =
     (case starmap_async p (job_arguments simulation_factory epochs n_runs_per_device pool_id dev) w of
        (Inl e, w') \<Rightarrow> (Inl e, w')
      | (Inr result, w') \<Rightarrow>
          submit_jobs simulation_factory epochs n_runs_per_device rest (results @ [result]) w')"

text \<open>
  The third inner loop, over \<^verbatim>\<open>zip(pools, results)\<close>: get the results of a pool,
  then close and join it.
\<close>

fun collect ::
  "(nat \<times> 'h async_result) list \<Rightarrow> 'h job_result list \<Rightarrow> 'h world \<Rightarrow>
   (exn + 'h job_result list) \<times> 'h world" where
  "collect [] all_outputs w = (Inr all_outputs, w)"
| "collect ((p, result) # rest) all_outputs w =
     (case get (arrival w p) result of
        Inl e \<Rightarrow> (Inl e, w)
      | Inr outputs \<Rightarrow>
          (case join p (close p w) of
             (Inl e, w') \<Rightarrow> (Inl e, w')
           | (Inr u, w') \<Rightarrow> collect rest (all_outputs @ outputs) w'))"

definition process_outputs :: "'h job_result list \<Rightarrow> ('h \<times> int \<times> device) list" where
  "process_outputs all_outputs =
     map (\<lambda>(simulation_history, used_seed, used_device).
            (handle_simulation_output simulation_history, used_seed, used_device)) all_outputs"

definition file_path :: "string \<Rightarrow> int \<Rightarrow> string" where
  "file_path nm experiment_id = outputs_prefix @ nm @ ''/experiment_'' @ str_int experiment_id"

text \<open>The pools of one configuration, from their creation to the last join.\<close>

definition run_pools ::
  "'h factory \<Rightarrow> int \<Rightarrow> int \<Rightarrow> int \<Rightarrow> device list \<Rightarrow> 'h world \<Rightarrow>
   (exn + 'h job_result list) \<times> 'h world" where
  "run_pools simulation_factory epochs n_runs_per_device n_processes_per_device devices_list w =
     (case create_pools n_processes_per_device devices_list [] w of
        (Inl e, w1) \<Rightarrow> (Inl e, w1)
      | (Inr ps, w1) \<Rightarrow>
          (case submit_jobs simulation_factory epochs n_runs_per_device
                  (enumerate 0 (zip ps devices_list)) [] w1 of
             (Inl e, w2) \<Rightarrow> (Inl e, w2)
           | (Inr results, w2) \<Rightarrow> collect (zip ps results) [] w2))"

text \<open>The rest of the body of the outer loop: the identifier and the bundle.\<close>

definition persist ::
  "string \<Rightarrow> 'h factory \<Rightarrow> int \<Rightarrow> 'h job_result list \<Rightarrow> 'h world \<Rightarrow> (exn + unit) \<times> 'h world" where
  "persist nm simulation_factory experiment_id all_outputs w =
     (let processed_outputs = process_outputs all_outputs in
      case simulation_factory 0 (torch_device ''cpu'') of
        Inl e \<Rightarrow> (Inl e, w)
      | Inr simulation \<Rightarrow>
          (case construct_simulation_identifier simulation of
             Inl e \<Rightarrow> (Inl e, w)
           | Inr simulation_identifier \<Rightarrow>
               save_to_disk (simulation_identifier, processed_outputs)
                 (file_path nm experiment_id) w))"

fun full_run_loop ::
  "string \<Rightarrow> int \<Rightarrow> int \<Rightarrow> device list \<Rightarrow> ('h factory \<times> int) list \<Rightarrow> int \<Rightarrow> 'h world \<Rightarrow>
   (exn + unit) \<times> 'h world" where
  "full_run_loop nm n_runs_per_device n_processes_per_device devices_list [] experiment_id w =
     (Inr (), w)"
| "full_run_loop nm n_runs_per_device n_processes_per_device devices_list
     ((simulation_factory, epochs) # rest) experiment_id w =
     (case run_pools simulation_factory epochs n_runs_per_device n_processes_per_device
             devices_list w of
        (Inl e, w1) \<Rightarrow> (Inl e, w1)
      | (Inr all_outputs, w1) \<Rightarrow>
          (case persist nm simulation_factory experiment_id all_outputs w1 of
             (Inl e, w2) \<Rightarrow> (Inl e, w2)
           | (Inr u, w2) \<Rightarrow>
               full_run_loop nm n_runs_per_device n_processes_per_device devices_list rest
                 (experiment_id + 1) w2))"

definition full_run ::
  "'h Experiment \<Rightarrow> int \<Rightarrow> int \<Rightarrow> device list \<Rightarrow> epochs_arg \<Rightarrow> 'h world \<Rightarrow>
   (exn + unit) \<times> 'h world" where
  "full_run exp n_runs_per_device n_processes_per_device devices_list epochs_per_simulation w =
     full_run_loop (name exp) n_runs_per_device n_processes_per_device devices_list
       (sweep exp epochs_per_simulation) 0 w"

section \<open>Example configurations\<close>

text \<open>
  Instances of \<^verbatim>\<open>Simulation\<close> as a factory builds them, for the concrete runs below:
  the declared fields, with the learning rate \<open>lr\<close>, the seed and the device as given,
  and the executor that \<^verbatim>\<open>__post_init__\<close> adds. Running one for \<open>epochs\<close> epochs
  leaves the history \<open>[seed, epochs]\<close>. \<open>failing_factory bad\<close> differs in that the
  run with seed \<open>bad\<close> raises.
\<close>

definition example_attrs :: "int \<Rightarrow> int \<Rightarrow> device \<Rightarrow> pydict" where
  "example_attrs lr seed dev =
     [(''seed'', PyInt seed),
      (''device'', PyObj False dev),
      (''model_factory'', PyObj False ''<function make_model>''),
      (''data'', PyStr ''mnist''),
      (''n_train'', PyInt 100),
      (''n_valid'', PyInt 10),
      (''loss_function'', PyObj False ''CrossEntropyLoss()''),
      (''batch_size'', PyInt 32),
      (''_learning_rate'', PyInt lr),
      (''simulation_name'', PyStr ''Simulation''),
      (''data_factory_kwargs'', PyObj False ''{}''),
      (''model_factory_kwargs'', PyObj False ''{}''),
      (''executor'', PyObj False ''<Executor>'')]"

definition example_simulation :: "int \<Rightarrow> int \<Rightarrow> device \<Rightarrow> int list simulation" where
  "example_simulation lr seed dev =
     \<lparr>sim_class = Simulation_class,
      sim_attrs = example_attrs lr seed dev,
      sim_run = (\<lambda>epochs. Inr ([seed, epochs], example_attrs lr seed dev))\<rparr>"

definition example_factory :: "int \<Rightarrow> int list factory" where
  "example_factory lr seed dev = Inr (example_simulation lr seed dev)"

definition failing_factory :: "int \<Rightarrow> int list factory" where
  "failing_factory bad seed dev =
     Inr ((example_simulation 1 seed dev)
            \<lparr>sim_run := (\<lambda>epochs. if seed = bad then Inl (WorkerError ''diverged'')
                                  else Inr ([seed, epochs], example_attrs 1 seed dev))\<rparr>)"

definition example_experiment :: "int list Experiment" where
  "example_experiment =
     \<lparr>name = ''e'', simulation_factories = [example_factory 1, example_factory 2]\<rparr>"

definition failing_experiment :: "int list Experiment" where
  "failing_experiment =
     \<lparr>name = ''e'', simulation_factories = [example_factory 1, failing_factory 4, example_factory 2]\<rparr>"

definition empty_world :: "int list world" where
  "empty_world = \<lparr>pools = [], arrival = (\<lambda>p. 0), saved = [], unwritable = (\<lambda>path. False)\<rparr>"




text \<open>
  Names for what one configuration leaves behind. \<open>batches\<close> lists, device by
  device, the job arguments that the second inner loop of \<^verbatim>\<open>full_run\<close> builds; a
  batch is fine when none of its jobs raises. A pool that has been given one batch is
  \<open>submitted_pool\<close>, and \<open>finished_pool\<close> once it has been closed and joined as well.
\<close>

definition batches :: "'h factory \<Rightarrow> int \<Rightarrow> int \<Rightarrow> device list \<Rightarrow> 'h job_args list list" where
  "batches simulation_factory epochs n_runs_per_device devices_list =
     map (\<lambda>(pool_id, dev). job_arguments simulation_factory epochs n_runs_per_device pool_id dev)
       (enumerate 0 devices_list)"

definition batch_ok :: "'h job_args list \<Rightarrow> bool" where
  "batch_ok b \<longleftrightarrow> failures (map job b) = []"

definition submitted_pool :: "int \<Rightarrow> 'h job_args list \<Rightarrow> 'h pool" where
  "submitted_pool n b = \<lparr>processes = n, submitted = [b], state = RUN, joined = False\<rparr>"

definition finished_pool :: "int \<Rightarrow> 'h job_args list \<Rightarrow> 'h pool" where
  "finished_pool n b = \<lparr>processes = n, submitted = [b], state = CLOSE, joined = True\<rparr>"

text \<open>
  The two parts of the bundle of a configuration: the identifier of the instance
  that the factory builds for seed 0 on the cpu device, and the processed results of
  all its batches.
\<close>

definition neutral_identifier :: "'h factory \<Rightarrow> exn + sim_id" where
  "neutral_identifier simulation_factory =
     (case simulation_factory 0 (torch_device ''cpu'') of
        Inl e \<Rightarrow> Inl e
      | Inr simulation \<Rightarrow> construct_simulation_identifier simulation)"

definition bundle_results :: "'h factory \<Rightarrow> int \<Rightarrow> int \<Rightarrow> device list \<Rightarrow> ('h \<times> int \<times> device) list" where
  "bundle_results simulation_factory epochs n_runs_per_device devices_list =
     process_outputs
       (concat (map (\<lambda>b. successes (map job b))
                  (batches simulation_factory epochs n_runs_per_device devices_list)))"

text \<open>
  How a configuration \<open>c\<close> can abort the run with the exception \<open>x\<close>, and the pools
  \<open>tail\<close> it leaves: no pool can be created; or a batch has a failing job, the pools
  before the first such batch are finished, and the others are still open; or every
  batch is fine, every pool is finished, and the identifier or the store fails.
  \<open>base\<close> is the handle of the first pool of the configuration.
\<close>

definition aborted ::
  "int \<Rightarrow> int \<Rightarrow> device list \<Rightarrow> 'h factory \<times> int \<Rightarrow> nat \<Rightarrow> (nat \<Rightarrow> nat) \<Rightarrow> exn \<Rightarrow> 'h pool list \<Rightarrow> bool" where
  "aborted n_processes_per_device n_runs_per_device devices_list c base arr x tail \<longleftrightarrow>
     (devices_list \<noteq> [] \<and> n_processes_per_device < 1 \<and> tail = [] \<and>
      x = ValueError ''Number of processes must be at least 1'')
   \<or> (\<exists>good bad rest.
         batches (fst c) (snd c) n_runs_per_device devices_list = good @ bad # rest \<and>
         list_all batch_ok good \<and> \<not> batch_ok bad \<and>
         tail = map (finished_pool n_processes_per_device) good @
                map (submitted_pool n_processes_per_device) (bad # rest) \<and>
         x = failures (map job bad) ! (arr (base + length good) mod length (failures (map job bad))))
   \<or> (list_all batch_ok (batches (fst c) (snd c) n_runs_per_device devices_list) \<and>
       tail = map (finished_pool n_processes_per_device)
                (batches (fst c) (snd c) n_runs_per_device devices_list))"

text \<open>
  What the outer loop of \<^verbatim>\<open>full_run\<close> has done when it stops in the world \<open>w'\<close>
  with the outcome \<open>r\<close>, having started in \<open>w\<close> with the configurations \<open>cs\<close> and
  the counter \<open>experiment_id\<close>: the first \<open>k\<close> configurations are complete, each
  with its finished pools, in order, and its bundle in the store; then either the
  loop is through, or configuration \<open>k\<close> aborted it and left the pools \<open>tail\<close>.
\<close>

definition loop_outcome ::
  "string \<Rightarrow> int \<Rightarrow> int \<Rightarrow> device list \<Rightarrow> ('h factory \<times> int) list \<Rightarrow> int \<Rightarrow>
   'h world \<Rightarrow> exn + unit \<Rightarrow> 'h world \<Rightarrow> nat \<Rightarrow> 'h pool list \<Rightarrow> bool" where
  "loop_outcome nm n_runs_per_device n_processes_per_device devices_list cs experiment_id w r w' k tail \<longleftrightarrow>
     k \<le> length cs
   \<and> pools w' = pools w @
        concat (map (\<lambda>c. map (finished_pool n_processes_per_device)
                             (batches (fst c) (snd c) n_runs_per_device devices_list)) (take k cs)) @ tail
   \<and> take (length (saved w)) (saved w') = saved w
   \<and> map snd (saved w') =
        map snd (saved w) @ map (\<lambda>i. file_path nm (experiment_id + int i)) [0..<k]
   \<and> map (\<lambda>s. snd (fst s)) (saved w') =
        map (\<lambda>s. snd (fst s)) (saved w) @
        map (\<lambda>c. bundle_results (fst c) (snd c) n_runs_per_device devices_list) (take k cs)
   \<and> map (\<lambda>s. Inr (fst (fst s))) (saved w') =
        map (\<lambda>s. Inr (fst (fst s))) (saved w) @ map (\<lambda>c. neutral_identifier (fst c)) (take k cs)
   \<and> list_all (\<lambda>c. list_all batch_ok (batches (fst c) (snd c) n_runs_per_device devices_list))
        (take k cs)
   \<and> arrival w' = arrival w
   \<and> (case r of
         Inr u \<Rightarrow> k = length cs \<and> tail = []
       | Inl x \<Rightarrow> k < length cs \<and>
           aborted n_processes_per_device n_runs_per_device devices_list (cs ! k)
             (length (pools w) + k * length devices_list) (arrival w) x tail)"

text \<open>The seeds and devices of a list of job arguments, of a list of results.\<close>

definition args_seed_device :: "'h job_args \<Rightarrow> int \<times> device" where
  "args_seed_device a = (fst (snd a), fst (snd (snd a)))"

definition result_seed_device :: "'a \<times> int \<times> device \<Rightarrow> int \<times> device" where
  "result_seed_device r = (fst (snd r), snd (snd r))"

section \<open>Properties of the identifier\<close>


lemma read_fields_Inr:
  "read_fields obj keys d = Inr d' \<Longrightarrow>
   map_of d' k = (if k \<in> set keys then map_option normalize_value (map_of (sim_attrs obj) k) else map_of d k)"
proof (induction keys arbitrary: d)
  case Nil
  then show ?case by simp
next
  case (Cons key keys)
  then show ?case
    by (auto simp: getattribute_def update_conv' split: option.splits sum.splits)
qed

lemma read_fields_Inr_attrs:
  "read_fields obj keys d = Inr d' \<Longrightarrow> k \<in> set keys \<Longrightarrow> \<exists>v. map_of (sim_attrs obj) k = Some v"
proof (induction keys arbitrary: d)
  case Nil
  then show ?case by simp
next
  case (Cons key keys)
  show ?case
  proof (cases "map_of (sim_attrs obj) key")
    case None
    with Cons.prems show ?thesis by (simp add: getattribute_def)
  next
    case (Some v)
    with Cons.prems Cons.IH show ?thesis by (auto simp: getattribute_def)
  qed
qed

lemma read_fields_total:
  "\<forall>k \<in> set keys. \<exists>v. getattribute obj k = Inr v \<Longrightarrow> \<exists>d'. read_fields obj keys d = Inr d'"
  by (induction keys arbitrary: d) (auto split: sum.splits)

lemma map_of_rename_learning_rate:
  "map_of (rename_learning_rate d) k =
     (case map_of d ''_learning_rate'' of
        None \<Rightarrow> map_of d k
      | Some v \<Rightarrow> if k = ''_learning_rate'' then None
                  else if k = ''learning_rate'' then Some v else map_of d k)"
  by (auto simp: rename_learning_rate_def delete_conv' update_conv' split: option.splits)

lemma declared_fields_Simulation:
  "declared_fields Simulation_class =
     [''seed'', ''device'', ''model_factory'', ''data'', ''n_train'', ''n_valid'',
      ''loss_function'', ''batch_size'', ''_learning_rate'', ''simulation_name'',
      ''data_factory_kwargs'', ''model_factory_kwargs'']"
  by (simp add: declared_fields_def Simulation_class_def object_class_def dict_update_def)

lemma example_identifier:
  "construct_simulation_identifier (example_simulation lr seed dev) =
     Inr (map_of
       [(''seed'', PyInt seed),
        (''device'', PyStr dev),
        (''model_factory'', PyStr ''<function make_model>''),
        (''data'', PyStr ''mnist''),
        (''n_train'', PyInt 100),
        (''n_valid'', PyInt 10),
        (''loss_function'', PyStr ''CrossEntropyLoss()''),
        (''batch_size'', PyInt 32),
        (''simulation_name'', PyStr ''Simulation''),
        (''data_factory_kwargs'', PyStr ''{}''),
        (''model_factory_kwargs'', PyStr ''{}''),
        (''learning_rate'', PyInt lr)])"
  by (simp add: construct_simulation_identifier_def Simulation_class_def object_class_def
        dict_update_def example_simulation_def example_attrs_def getattribute_def
        normalize_value_def rename_learning_rate_def HashableDict_def)

text \<open>
  Claim C8. When \<^verbatim>\<open>construct_simulation_identifier\<close> returns, every declared field
  other than \<^verbatim>\<open>'_learning_rate'\<close> is bound to the value of the attribute of that
  name, kept as it is when it is a number and replaced by its \<^verbatim>\<open>str\<close> otherwise;
  when \<^verbatim>\<open>'_learning_rate'\<close> is declared, its normalized value is found under
  \<^verbatim>\<open>'learning_rate'\<close> and the private name is gone; and the identifier has no
  other keys.
\<close>

theorem identifier_normalization:
  assumes "construct_simulation_identifier sim = Inr ident"
  shows "(\<forall>k \<in> set (declared_fields (sim_class sim)).
            k \<noteq> ''_learning_rate'' \<longrightarrow>
            (''_learning_rate'' \<in> set (declared_fields (sim_class sim)) \<longrightarrow> k \<noteq> ''learning_rate'') \<longrightarrow>
            (\<exists>v. getattribute sim k = Inr v \<and>
                 ident k = Some (if is_number v then v else PyStr (py_str v))))
       \<and> (''_learning_rate'' \<in> set (declared_fields (sim_class sim)) \<longrightarrow>
            ident ''_learning_rate'' = None \<and>
            (\<exists>v. getattribute sim ''_learning_rate'' = Inr v \<and>
                 ident ''learning_rate'' = Some (if is_number v then v else PyStr (py_str v))))
       \<and> dom ident =
            (if ''_learning_rate'' \<in> set (declared_fields (sim_class sim))
             then insert ''learning_rate'' (set (declared_fields (sim_class sim)) - {''_learning_rate''})
             else set (declared_fields (sim_class sim)))"
proof -
  let ?fs = "declared_fields (sim_class sim)"
  let ?d0 = "append_identifiers (sim_class sim) []"
  from assms obtain d where rd: "read_fields sim ?fs ?d0 = Inr d"
    and ident: "ident = map_of (rename_learning_rate d)"
    by (auto simp: construct_simulation_identifier_def declared_fields_def HashableDict_def Let_def
             split: sum.splits)
  have val: "map_of d k = (if k \<in> set ?fs then map_option normalize_value (map_of (sim_attrs sim) k) else None)" for k
  proof -
    have "k \<notin> set ?fs \<Longrightarrow> map_of ?d0 k = None"
      by (simp add: declared_fields_def map_of_eq_None_iff)
    then show ?thesis using read_fields_Inr [OF rd, of k] by auto
  qed
  have attr: "k \<in> set ?fs \<Longrightarrow> \<exists>v. map_of (sim_attrs sim) k = Some v" for k
    using read_fields_Inr_attrs [OF rd, of k] by simp
  have norm: "normalize_value v = (if is_number v then v else PyStr (py_str v))" for v
    by (simp add: normalize_value_def)
  have 1: "\<forall>k \<in> set ?fs. k \<noteq> ''_learning_rate'' \<longrightarrow>
            (''_learning_rate'' \<in> set ?fs \<longrightarrow> k \<noteq> ''learning_rate'') \<longrightarrow>
            (\<exists>v. getattribute sim k = Inr v \<and>
                 ident k = Some (if is_number v then v else PyStr (py_str v)))"
  proof (intro ballI impI)
    fix k assume k: "k \<in> set ?fs" "k \<noteq> ''_learning_rate''"
      "''_learning_rate'' \<in> set ?fs \<longrightarrow> k \<noteq> ''learning_rate''"
    from attr [OF k(1)] obtain v where v: "map_of (sim_attrs sim) k = Some v" by blast
    have "ident k = Some (normalize_value v)"
      using k v attr [of "''_learning_rate''"]
      by (auto simp: ident map_of_rename_learning_rate val split: option.splits)
    with v show "\<exists>v. getattribute sim k = Inr v \<and>
                 ident k = Some (if is_number v then v else PyStr (py_str v))"
      by (simp add: getattribute_def norm)
  qed
  have 2: "''_learning_rate'' \<in> set ?fs \<longrightarrow>
            ident ''_learning_rate'' = None \<and>
            (\<exists>v. getattribute sim ''_learning_rate'' = Inr v \<and>
                 ident ''learning_rate'' = Some (if is_number v then v else PyStr (py_str v)))"
  proof
    assume lr: "''_learning_rate'' \<in> set ?fs"
    from attr [OF lr] obtain v where v: "map_of (sim_attrs sim) ''_learning_rate'' = Some v" by blast
    have "ident ''_learning_rate'' = None" "ident ''learning_rate'' = Some (normalize_value v)"
      using lr v by (auto simp: ident map_of_rename_learning_rate val)
    with v show "ident ''_learning_rate'' = None \<and>
            (\<exists>v. getattribute sim ''_learning_rate'' = Inr v \<and>
                 ident ''learning_rate'' = Some (if is_number v then v else PyStr (py_str v)))"
      by (simp add: getattribute_def norm)
  qed
  have 3: "dom ident =
            (if ''_learning_rate'' \<in> set ?fs
             then insert ''learning_rate'' (set ?fs - {''_learning_rate''})
             else set ?fs)"
  proof -
    have "(ident k \<noteq> None) = (k \<in> (if ''_learning_rate'' \<in> set ?fs
             then insert ''learning_rate'' (set ?fs - {''_learning_rate''})
             else set ?fs))" for k
      using attr [of k] attr [of "''_learning_rate''"]
      by (auto simp: ident map_of_rename_learning_rate val split: option.splits)
    then show ?thesis by (auto simp: dom_def)
  qed
  from 1 2 3 show ?thesis by blast
qed

theorem identifier_normalization_witness:
  "construct_simulation_identifier (example_simulation 3 7 ''cpu'') =
     Inr (map_of
       [(''seed'', PyInt 7),
        (''device'', PyStr ''cpu''),
        (''model_factory'', PyStr ''<function make_model>''),
        (''data'', PyStr ''mnist''),
        (''n_train'', PyInt 100),
        (''n_valid'', PyInt 10),
        (''loss_function'', PyStr ''CrossEntropyLoss()''),
        (''batch_size'', PyInt 32),
        (''simulation_name'', PyStr ''Simulation''),
        (''data_factory_kwargs'', PyStr ''{}''),
        (''model_factory_kwargs'', PyStr ''{}''),
        (''learning_rate'', PyInt 3)])
   \<and> (\<exists>v. getattribute (example_simulation 3 7 ''cpu'') ''_learning_rate'' = Inr v \<and>
          Some (PyInt 3) = Some (if is_number v then v else PyStr (py_str v)))"
proof -
  have h: "construct_simulation_identifier (example_simulation 3 7 ''cpu'') =
     Inr (map_of
       [(''seed'', PyInt 7),
        (''device'', PyStr ''cpu''),
        (''model_factory'', PyStr ''<function make_model>''),
        (''data'', PyStr ''mnist''),
        (''n_train'', PyInt 100),
        (''n_valid'', PyInt 10),
        (''loss_function'', PyStr ''CrossEntropyLoss()''),
        (''batch_size'', PyInt 32),
        (''simulation_name'', PyStr ''Simulation''),
        (''data_factory_kwargs'', PyStr ''{}''),
        (''model_factory_kwargs'', PyStr ''{}''),
        (''learning_rate'', PyInt 3)])"
    by (rule example_identifier)
  have lr: "''_learning_rate'' \<in> set (declared_fields (sim_class (example_simulation 3 7 ''cpu'')))"
    by (simp add: example_simulation_def declared_fields_Simulation)
  from identifier_normalization [OF h] lr
  have "\<exists>v. getattribute (example_simulation 3 7 ''cpu'') ''_learning_rate'' = Inr v \<and>
          Some (PyInt 3) = Some (if is_number v then v else PyStr (py_str v))"
    by simp
  with h show ?thesis by blast
qed





section \<open>The sweep: epoch counts\<close>

lemma zip_cycle_nth:
  "ys \<noteq> [] \<Longrightarrow> k \<le> length ys \<Longrightarrow> i < length xs \<Longrightarrow>
   length (zip_cycle xs (drop k ys) ys) = length xs \<and>
   zip_cycle xs (drop k ys) ys ! i = (xs ! i, ys ! ((k + i) mod length ys))"
proof (induction xs arbitrary: k i)
  case Nil
  then show ?case by simp
next
  case (Cons x xs)
  show ?case
  proof (cases "k < length ys")
    case True
    then have d: "drop k ys = ys ! k # drop (Suc k) ys"
      by (simp add: Cons_nth_drop_Suc)
    have len: "length (zip_cycle xs (drop (Suc k) ys) ys) = length xs"
    proof (cases xs)
      case Nil
      then show ?thesis by simp
    next
      case (Cons a list)
      with Cons.IH [of "Suc k" 0] Cons.prems True show ?thesis by simp
    qed
    show ?thesis
    proof (cases i)
      case 0
      with d len True show ?thesis by simp
    next
      case (Suc j)
      with Cons.prems have "j < length xs" by simp
      with Cons.IH [of "Suc k" j] Cons.prems True Suc d len show ?thesis by simp
    qed
  next
    case False
    with Cons.prems have k: "k = length ys" by simp
    from Cons.prems obtain y rest where s: "ys = y # rest" by (cases ys) auto
    have e: "zip_cycle (x # xs) (drop k ys) ys = (x, ys ! 0) # zip_cycle xs (drop 1 ys) ys"
      using k s by simp
    have len: "length (zip_cycle xs (drop 1 ys) ys) = length xs"
    proof (cases xs)
      case Nil
      then show ?thesis by simp
    next
      case (Cons a list)
      with Cons.IH [of 1 0] Cons.prems show ?thesis by (cases ys) simp_all
    qed
    show ?thesis
    proof (cases i)
      case 0
      with k e len show ?thesis by simp
    next
      case (Suc j)
      with Cons.prems have j: "j < length xs" by simp
      have "(length ys + (1 + j)) mod length ys = (1 + j) mod length ys"
        by (rule mod_add_self1)
      then have m: "(k + i) mod length ys = (1 + j) mod length ys"
        using k Suc by (simp add: add.commute)
      have "1 \<le> length ys" using Cons.prems by (cases ys) simp_all
      with Cons.IH [of 1 j] Cons.prems j
      have "zip_cycle xs (drop 1 ys) ys ! j = (xs ! j, ys ! ((1 + j) mod length ys))" by simp
      with e len m Suc show ?thesis by simp
    qed
  qed
qed

lemma zip_cycle_eq:
  assumes "es \<noteq> []"
  shows "zip_cycle xs es es = map (\<lambda>i. (xs ! i, es ! (i mod length es))) [0..<length xs]"
proof (cases xs)
  case Nil
  then show ?thesis by simp
next
  case (Cons a list)
  have l: "length (zip_cycle xs es es) = length xs"
    using zip_cycle_nth [OF assms, of 0 0 xs] Cons by simp
  show ?thesis
  proof (rule nth_equalityI)
    show "length (zip_cycle xs es es) = length (map (\<lambda>i. (xs ! i, es ! (i mod length es))) [0..<length xs])"
      using l by simp
  next
    fix i assume "i < length (zip_cycle xs es es)"
    with l have i: "i < length xs" by simp
    from zip_cycle_nth [OF assms, of 0 i xs] i
    show "zip_cycle xs es es ! i = map (\<lambda>i. (xs ! i, es ! (i mod length es))) [0..<length xs] ! i"
      by simp
  qed
qed

lemma zip_cycle_empty: "zip_cycle xs [] [] = []"
  by (cases xs) simp_all






section \<open>The prototype run\<close>

lemma length_sweep:
  "length (sweep exp ea) = (if epochs_list ea = [] then 0 else length (simulation_factories exp))"
  by (simp add: sweep_def Let_def zip_cycle_empty zip_cycle_eq)










section \<open>The full run: what one configuration does\<close>

lemma create_pools_ok:
  "1 \<le> P \<Longrightarrow>
   create_pools P devs ps w =
     (Inr (ps @ [length (pools w)..<length (pools w) + length devs]),
      w\<lparr>pools := pools w @ replicate (length devs) (new_pool P)\<rparr>)"
proof (induction devs arbitrary: ps w)
  case Nil
  then show ?case by simp
next
  case (Cons d devs)
  have "[length (pools w)..<length (pools w) + length (d # devs)] =
        length (pools w) # [Suc (length (pools w))..<Suc (length (pools w)) + length devs]"
    by (simp add: upt_conv_Cons del: upt_Suc)
  with Cons show ?case
    by (simp add: Pool_def replicate_append_same)
qed

lemma create_pools_fail:
  "P < 1 \<Longrightarrow> devs \<noteq> [] \<Longrightarrow>
   create_pools P devs ps w = (Inl (ValueError ''Number of processes must be at least 1''), w)"
  by (cases devs) (simp_all add: Pool_def)

lemma submit_jobs_closed:
  "pools w = A @ replicate (length devs) (new_pool P) \<Longrightarrow>
   submit_jobs f e R (zip [k..<k + length devs] (zip [length A..<length A + length devs] devs)) results w =
     (Inr (results @ map (\<lambda>(i, d). map job (job_arguments f e R i d)) (zip [k..<k + length devs] devs)),
      w\<lparr>pools := A @ map (\<lambda>(i, d). submitted_pool P (job_arguments f e R i d))
                         (zip [k..<k + length devs] devs)\<rparr>)"
proof (induction devs arbitrary: A k results w)
  case Nil
  then show ?case by simp
next
  case (Cons d devs)
  let ?sp = "submitted_pool P (job_arguments f e R k d)"
  let ?w' = "w\<lparr>pools := (A @ [?sp]) @ replicate (length devs) (new_pool P)\<rparr>"
  let ?rest = "zip [Suc k..<Suc k + length devs]
                 (zip [length (A @ [?sp])..<length (A @ [?sp]) + length devs] devs)"
  have u1: "[k..<k + length (d # devs)] = k # [Suc k..<Suc k + length devs]"
    by (simp add: upt_conv_Cons del: upt_Suc)
  have u2: "[length A..<length A + length (d # devs)] =
            length A # [length (A @ [?sp])..<length (A @ [?sp]) + length devs]"
    by (simp add: upt_conv_Cons del: upt_Suc)
  have st: "starmap_async (length A) (job_arguments f e R k d) w =
            (Inr (map job (job_arguments f e R k d)), ?w')"
    using Cons.prems by (simp add: starmap_async_def new_pool_def submitted_pool_def)
  have p': "pools ?w' = (A @ [?sp]) @ replicate (length devs) (new_pool P)" by simp
  have "submit_jobs f e R
          (zip [k..<k + length (d # devs)] (zip [length A..<length A + length (d # devs)] (d # devs)))
          results w =
        submit_jobs f e R ?rest (results @ [map job (job_arguments f e R k d)]) ?w'"
    unfolding u1 u2 by (simp only: zip_Cons_Cons submit_jobs.simps st prod.case sum.case)
  also have "\<dots> =
     (Inr ((results @ [map job (job_arguments f e R k d)]) @
             map (\<lambda>(i, d). map job (job_arguments f e R i d)) (zip [Suc k..<Suc k + length devs] devs)),
      ?w'\<lparr>pools := (A @ [?sp]) @ map (\<lambda>(i, d). submitted_pool P (job_arguments f e R i d))
                         (zip [Suc k..<Suc k + length devs] devs)\<rparr>)"
    by (rule Cons.IH [OF p'])
  also have "\<dots> =
     (Inr (results @ map (\<lambda>(i, d). map job (job_arguments f e R i d))
                      (zip [k..<k + length (d # devs)] (d # devs))),
      w\<lparr>pools := A @ map (\<lambda>(i, d). submitted_pool P (job_arguments f e R i d))
                         (zip [k..<k + length (d # devs)] (d # devs))\<rparr>)"
    unfolding u1 by simp
  finally show ?case .
qed


lemma collect_step_ok:
  assumes "pools w = A @ submitted_pool P b # Bs" and "batch_ok b"
  shows "collect ((length A, map job b) # rest) acc w =
         collect rest (acc @ successes (map job b)) (w\<lparr>pools := A @ finished_pool P b # Bs\<rparr>)"
  using assms
  by (simp add: get_def batch_ok_def close_def join_def submitted_pool_def finished_pool_def)

lemma collect_step_fail:
  assumes "\<not> batch_ok b"
  shows "collect ((p, map job b) # rest) acc w =
         (Inl (failures (map job b) ! (arrival w p mod length (failures (map job b)))), w)"
  using assms by (simp add: get_def batch_ok_def)

lemma collect_all_ok:
  "pools w = A @ map (submitted_pool P) bs \<Longrightarrow> \<forall>b \<in> set bs. batch_ok b \<Longrightarrow>
   collect (zip [length A..<length A + length bs] (map (map job) bs)) acc w =
     (Inr (acc @ concat (map (\<lambda>b. successes (map job b)) bs)),
      w\<lparr>pools := A @ map (finished_pool P) bs\<rparr>)"
proof (induction bs arbitrary: A acc w)
  case Nil
  then show ?case by simp
next
  case (Cons b bs)
  let ?w' = "w\<lparr>pools := (A @ [finished_pool P b]) @ map (submitted_pool P) bs\<rparr>"
  have u: "[length A..<length A + length (b # bs)] =
           length A # [length (A @ [finished_pool P b])..<length (A @ [finished_pool P b]) + length bs]"
    by (simp add: upt_conv_Cons del: upt_Suc)
  have p: "pools w = A @ submitted_pool P b # map (submitted_pool P) bs"
    using Cons.prems(1) by simp
  have ok: "batch_ok b" "\<forall>b \<in> set bs. batch_ok b" using Cons.prems(2) by simp_all
  have p': "pools ?w' = (A @ [finished_pool P b]) @ map (submitted_pool P) bs" by simp
  have "collect (zip [length A..<length A + length (b # bs)] (map (map job) (b # bs))) acc w =
        collect (zip [length (A @ [finished_pool P b])..<length (A @ [finished_pool P b]) + length bs]
                   (map (map job) bs)) (acc @ successes (map job b)) ?w'"
    unfolding u using collect_step_ok [OF p ok(1)] by simp
  also have "\<dots> = (Inr ((acc @ successes (map job b)) @ concat (map (\<lambda>b. successes (map job b)) bs)),
      ?w'\<lparr>pools := (A @ [finished_pool P b]) @ map (finished_pool P) bs\<rparr>)"
    by (rule Cons.IH [OF p' ok(2)])
  also have "\<dots> = (Inr (acc @ concat (map (\<lambda>b. successes (map job b)) (b # bs))),
      w\<lparr>pools := A @ map (finished_pool P) (b # bs)\<rparr>)"
    by simp
  finally show ?case .
qed

lemma collect_first_failure:
  "pools w = A @ map (submitted_pool P) (good @ bad # rest) \<Longrightarrow>
   \<forall>b \<in> set good. batch_ok b \<Longrightarrow> \<not> batch_ok bad \<Longrightarrow>
   collect (zip [length A..<length A + length (good @ bad # rest)]
              (map (map job) (good @ bad # rest))) acc w =
     (Inl (failures (map job bad) !
            (arrival w (length A + length good) mod length (failures (map job bad)))),
      w\<lparr>pools := A @ map (finished_pool P) good @ map (submitted_pool P) (bad # rest)\<rparr>)"
proof (induction good arbitrary: A acc w)
  case Nil
  have u: "[length A..<length A + length ([] @ bad # rest)] =
           length A # [Suc (length A)..<Suc (length A) + length rest]"
    by (simp add: upt_conv_Cons del: upt_Suc)
  have "w\<lparr>pools := A @ map (submitted_pool P) (bad # rest)\<rparr> = w"
    using Nil.prems(1) by simp
  then show ?case
    unfolding u using collect_step_fail [OF Nil.prems(3)] by simp
next
  case (Cons b good)
  let ?w' = "w\<lparr>pools := (A @ [finished_pool P b]) @ map (submitted_pool P) (good @ bad # rest)\<rparr>"
  have u: "[length A..<length A + length ((b # good) @ bad # rest)] =
           length A # [length (A @ [finished_pool P b])..<
                        length (A @ [finished_pool P b]) + length (good @ bad # rest)]"
    by (simp add: upt_conv_Cons del: upt_Suc)
  have p: "pools w = A @ submitted_pool P b # map (submitted_pool P) (good @ bad # rest)"
    using Cons.prems(1) by simp
  have ok: "batch_ok b" "\<forall>b \<in> set good. batch_ok b" using Cons.prems(2) by simp_all
  have p': "pools ?w' = (A @ [finished_pool P b]) @ map (submitted_pool P) (good @ bad # rest)" by simp
  have "collect (zip [length A..<length A + length ((b # good) @ bad # rest)]
                  (map (map job) ((b # good) @ bad # rest))) acc w =
        collect (zip [length (A @ [finished_pool P b])..<
                        length (A @ [finished_pool P b]) + length (good @ bad # rest)]
                   (map (map job) (good @ bad # rest))) (acc @ successes (map job b)) ?w'"
    unfolding u using collect_step_ok [OF p ok(1)] by simp
  also have "\<dots> =
     (Inl (failures (map job bad) !
            (arrival ?w' (length (A @ [finished_pool P b]) + length good) mod length (failures (map job bad)))),
      ?w'\<lparr>pools := (A @ [finished_pool P b]) @ map (finished_pool P) good @ map (submitted_pool P) (bad # rest)\<rparr>)"
    by (rule Cons.IH [OF p' ok(2) Cons.prems(3)])
  also have "\<dots> =
     (Inl (failures (map job bad) !
            (arrival w (length A + length (b # good)) mod length (failures (map job bad)))),
      w\<lparr>pools := A @ map (finished_pool P) (b # good) @ map (submitted_pool P) (bad # rest)\<rparr>)"
    by simp
  finally show ?case .
qed


lemma length_batches: "length (batches f e R devs) = length devs"
  by (simp add: batches_def)

lemma run_pools_creation_fails:
  "P < 1 \<Longrightarrow> devs \<noteq> [] \<Longrightarrow>
   run_pools f e R P devs w = (Inl (ValueError ''Number of processes must be at least 1''), w)"
  by (simp add: run_pools_def create_pools_fail)

lemma run_pools_collect:
  assumes "1 \<le> P \<or> devs = []"
  shows "run_pools f e R P devs w =
     collect (zip [length (pools w)..<length (pools w) + length (batches f e R devs)]
                (map (map job) (batches f e R devs))) []
       (w\<lparr>pools := pools w @ map (submitted_pool P) (batches f e R devs)\<rparr>)"
proof -
  let ?w1 = "w\<lparr>pools := pools w @ replicate (length devs) (new_pool P)\<rparr>"
  let ?ps = "[length (pools w)..<length (pools w) + length devs]"
  have c: "create_pools P devs [] w = (Inr ?ps, ?w1)"
  proof (cases "devs = []")
    case True
    then show ?thesis by simp
  next
    case False
    with assms have "1 \<le> P" by simp
    then show ?thesis by (simp add: create_pools_ok)
  qed
  have en: "enumerate 0 (zip ?ps devs) = zip [0..<0 + length devs] (zip ?ps devs)"
    by (simp add: enumerate_eq_zip)
  have p1: "pools ?w1 = pools w @ replicate (length devs) (new_pool P)" by simp
  have s: "submit_jobs f e R (enumerate 0 (zip ?ps devs)) [] ?w1 =
      (Inr ([] @ map (\<lambda>(i, d). map job (job_arguments f e R i d)) (zip [0..<0 + length devs] devs)),
       ?w1\<lparr>pools := pools w @ map (\<lambda>(i, d). submitted_pool P (job_arguments f e R i d))
                         (zip [0..<0 + length devs] devs)\<rparr>)"
    unfolding en by (rule submit_jobs_closed [OF p1])
  have b: "batches f e R devs =
           map (\<lambda>(i, d). job_arguments f e R i d) (zip [0..<0 + length devs] devs)"
    by (simp add: batches_def enumerate_eq_zip)
  have r: "map (\<lambda>(i, d). map job (job_arguments f e R i d)) (zip [0..<0 + length devs] devs) =
           map (map job) (batches f e R devs)"
    unfolding b by (simp add: case_prod_unfold)
  have q: "map (\<lambda>(i, d). submitted_pool P (job_arguments f e R i d)) (zip [0..<0 + length devs] devs) =
           map (submitted_pool P) (batches f e R devs)"
    unfolding b by (simp add: case_prod_unfold)
  have "run_pools f e R P devs w =
        (case submit_jobs f e R (enumerate 0 (zip ?ps devs)) [] ?w1 of
           (Inl e, w2) \<Rightarrow> (Inl e, w2)
         | (Inr results, w2) \<Rightarrow> collect (zip ?ps results) [] w2)"
    by (simp add: run_pools_def c)
  also have "\<dots> =
        collect (zip ?ps (map (\<lambda>(i, d). map job (job_arguments f e R i d))
                            (zip [0..<0 + length devs] devs))) []
          (?w1\<lparr>pools := pools w @ map (\<lambda>(i, d). submitted_pool P (job_arguments f e R i d))
                         (zip [0..<0 + length devs] devs)\<rparr>)"
    by (simp only: s prod.case sum.case append_Nil)
  also have "\<dots> =
        collect (zip [length (pools w)..<length (pools w) + length (batches f e R devs)]
                   (map (map job) (batches f e R devs))) []
          (w\<lparr>pools := pools w @ map (submitted_pool P) (batches f e R devs)\<rparr>)"
    unfolding r q by (simp add: length_batches)
  finally show ?thesis .
qed

lemma run_pools_all_ok:
  assumes "1 \<le> P \<or> devs = []" and "\<forall>b \<in> set (batches f e R devs). batch_ok b"
  shows "run_pools f e R P devs w =
     (Inr (concat (map (\<lambda>b. successes (map job b)) (batches f e R devs))),
      w\<lparr>pools := pools w @ map (finished_pool P) (batches f e R devs)\<rparr>)"
proof -
  let ?w2 = "w\<lparr>pools := pools w @ map (submitted_pool P) (batches f e R devs)\<rparr>"
  have p: "pools ?w2 = pools w @ map (submitted_pool P) (batches f e R devs)" by simp
  show ?thesis
    unfolding run_pools_collect [OF assms(1)] collect_all_ok [OF p assms(2)] by simp
qed

lemma run_pools_first_failure:
  assumes "1 \<le> P" and "batches f e R devs = good @ bad # rest"
      and "\<forall>b \<in> set good. batch_ok b" and "\<not> batch_ok bad"
  shows "run_pools f e R P devs w =
     (Inl (failures (map job bad) !
            (arrival w (length (pools w) + length good) mod length (failures (map job bad)))),
      w\<lparr>pools := pools w @ map (finished_pool P) good @ map (submitted_pool P) (bad # rest)\<rparr>)"
proof -
  let ?w2 = "w\<lparr>pools := pools w @ map (submitted_pool P) (good @ bad # rest)\<rparr>"
  have p: "pools ?w2 = pools w @ map (submitted_pool P) (good @ bad # rest)" by simp
  have a: "1 \<le> P \<or> devs = []" using assms(1) by simp
  show ?thesis
    unfolding run_pools_collect [OF a] assms(2) collect_first_failure [OF p assms(3) assms(4)]
    by simp
qed

lemma persist_effect:
  assumes "persist nm f eid outs w = (r, w')"
  shows "pools w' = pools w \<and> arrival w' = arrival w \<and> unwritable w' = unwritable w \<and>
     (case r of
        Inl x \<Rightarrow> saved w' = saved w
      | Inr u \<Rightarrow> \<exists>ident. neutral_identifier f = Inr ident \<and>
                  saved w' = saved w @ [((ident, process_outputs outs), file_path nm eid)])"
  using assms
  by (auto simp: persist_def neutral_identifier_def save_to_disk_def Let_def
           split: sum.splits if_splits)


lemma run_pools_cases:
  assumes "run_pools f e R P devs w = (r, w1)"
  shows "arrival w1 = arrival w \<and> saved w1 = saved w \<and> unwritable w1 = unwritable w \<and>
     (case r of
        Inr outs \<Rightarrow> list_all batch_ok (batches f e R devs) \<and>
                    outs = concat (map (\<lambda>b. successes (map job b)) (batches f e R devs)) \<and>
                    pools w1 = pools w @ map (finished_pool P) (batches f e R devs)
      | Inl x \<Rightarrow> \<exists>tail. pools w1 = pools w @ tail \<and>
                    ((devs \<noteq> [] \<and> P < 1 \<and> tail = [] \<and>
                      x = ValueError ''Number of processes must be at least 1'')
                   \<or> (\<exists>good bad rest.
                         batches f e R devs = good @ bad # rest \<and>
                         list_all batch_ok good \<and> \<not> batch_ok bad \<and>
                         tail = map (finished_pool P) good @ map (submitted_pool P) (bad # rest) \<and>
                         x = failures (map job bad) !
                               (arrival w (length (pools w) + length good) mod
                                length (failures (map job bad))))))"
proof (cases "P < 1 \<and> devs \<noteq> []")
  case True
  with assms run_pools_creation_fails [of P devs f e R w] show ?thesis by auto
next
  case False
  then have a: "1 \<le> P \<or> devs = []" by auto
  show ?thesis
  proof (cases "\<forall>b \<in> set (batches f e R devs). batch_ok b")
    case True
    with assms run_pools_all_ok [OF a True, of w] show ?thesis
      by (auto simp: list_all_iff)
  next
    case False
    then have ex: "\<exists>b \<in> set (batches f e R devs). \<not> batch_ok b" by simp
    from split_list_first_prop [OF ex] obtain good bad rest where
      sp: "batches f e R devs = good @ bad # rest" "\<not> batch_ok bad" "\<forall>b \<in> set good. \<not> \<not> batch_ok b"
      by blast
    from sp(3) have g: "\<forall>b \<in> set good. batch_ok b" by simp
    from sp(1) have "devs \<noteq> []" by (auto simp: batches_def)
    with a have P: "1 \<le> P" by simp
    from assms run_pools_first_failure [OF P sp(1) g sp(2), of w]
    have r: "r = Inl (failures (map job bad) !
                (arrival w (length (pools w) + length good) mod length (failures (map job bad))))"
      and w1: "w1 = w\<lparr>pools := pools w @ map (finished_pool P) good @ map (submitted_pool P) (bad # rest)\<rparr>"
      by simp_all
    let ?T = "map (finished_pool P) good @ map (submitted_pool P) (bad # rest)"
    let ?X = "failures (map job bad) !
                (arrival w (length (pools w) + length good) mod length (failures (map job bad)))"
    have lg: "list_all batch_ok good" using g by (simp add: list_all_iff)
    have D: "\<exists>good' bad' rest'.
            batches f e R devs = good' @ bad' # rest' \<and>
            list_all batch_ok good' \<and> \<not> batch_ok bad' \<and>
            ?T = map (finished_pool P) good' @ map (submitted_pool P) (bad' # rest') \<and>
            ?X = failures (map job bad') !
                (arrival w (length (pools w) + length good') mod length (failures (map job bad')))"
      using sp(1,2) lg by blast
    have w1p: "pools w1 = pools w @ ?T" by (simp add: w1)
    have o: "arrival w1 = arrival w" "saved w1 = saved w" "unwritable w1 = unwritable w"
      by (simp_all add: w1)
    from D w1p o show ?thesis
      unfolding r by (simp only: sum.case) blast
  qed
qed


lemma loop_outcome_Nil: "loop_outcome nm R P devs [] eid w (Inr ()) w 0 []"
  by (simp add: loop_outcome_def)

lemma loop_outcome_abort:
  assumes "arrival w1 = arrival w" "saved w1 = saved w" "pools w1 = pools w @ tail"
      and "aborted P R devs c (length (pools w)) (arrival w) x tail"
  shows "loop_outcome nm R P devs (c # cs) eid w (Inl x) w1 0 tail"
  using assms by (simp add: loop_outcome_def)

lemma loop_outcome_Suc:
  assumes ok: "list_all batch_ok (batches (fst c) (snd c) R devs)"
      and p2: "pools w2 = pools w @ map (finished_pool P) (batches (fst c) (snd c) R devs)"
      and a2: "arrival w2 = arrival w"
      and ni: "neutral_identifier (fst c) = Inr ident"
      and s2: "saved w2 = saved w @ [((ident, bundle_results (fst c) (snd c) R devs), file_path nm eid)]"
      and rest: "loop_outcome nm R P devs cs (eid + 1) w2 r w' k tail"
  shows "loop_outcome nm R P devs (c # cs) eid w r w' (Suc k) tail"
proof -
  have paths: "map (\<lambda>i. file_path nm (eid + int i)) [0..<Suc k] =
               file_path nm eid # map (\<lambda>i. file_path nm (eid + 1 + int i)) [0..<k]"
    by (simp add: map_upt_Suc add.assoc del: upt_Suc)
  have idx: "length (pools w2) + k * length devs = length (pools w) + Suc k * length devs"
    by (simp add: p2 length_batches)
  from rest have r: "case r of
         Inr u \<Rightarrow> Suc k = length (c # cs) \<and> tail = []
       | Inl x \<Rightarrow> Suc k < length (c # cs) \<and>
           aborted P R devs ((c # cs) ! Suc k) (length (pools w) + Suc k * length devs) (arrival w) x tail"
    by (simp add: loop_outcome_def idx a2 split: sum.splits)
  from rest have "take (length (saved w2)) (saved w') = saved w2"
    by (simp add: loop_outcome_def)
  then have "take (length (saved w)) (take (length (saved w2)) (saved w')) = saved w"
    by (simp add: s2)
  then have pre: "take (length (saved w)) (saved w') = saved w"
    by (simp add: s2 min_def)
  from rest have
    "k \<le> length cs"
    "pools w' = pools w2 @
        concat (map (\<lambda>c. map (finished_pool P) (batches (fst c) (snd c) R devs)) (take k cs)) @ tail"
    "map snd (saved w') = map snd (saved w2) @ map (\<lambda>i. file_path nm (eid + 1 + int i)) [0..<k]"
    "map (\<lambda>s. snd (fst s)) (saved w') =
        map (\<lambda>s. snd (fst s)) (saved w2) @
        map (\<lambda>c. bundle_results (fst c) (snd c) R devs) (take k cs)"
    "map (\<lambda>s. Inr (fst (fst s))) (saved w') =
        map (\<lambda>s. Inr (fst (fst s))) (saved w2) @ map (\<lambda>c. neutral_identifier (fst c)) (take k cs)"
    "list_all (\<lambda>c. list_all batch_ok (batches (fst c) (snd c) R devs)) (take k cs)"
    "arrival w' = arrival w2"
    by (simp_all add: loop_outcome_def)
  with r ok pre show ?thesis
    unfolding loop_outcome_def paths
    by (simp add: p2 a2 ni s2 del: upt_Suc)
qed

lemma full_run_loop_outcome:
  "full_run_loop nm R P devs cs eid w = (r, w') \<Longrightarrow>
   \<exists>k tail. loop_outcome nm R P devs cs eid w r w' k tail"
proof (induction cs arbitrary: eid w)
  case Nil
  then have "r = Inr ()" "w' = w" by simp_all
  with loop_outcome_Nil show ?case by blast
next
  case (Cons c cs)
  obtain f e where c: "c = (f, e)" by (cases c)
  obtain r1 w1 where rp: "run_pools f e R P devs w = (r1, w1)" by (cases "run_pools f e R P devs w")
  note rc = run_pools_cases [OF rp]
  show ?case
  proof (cases r1)
    case (Inl x)
    with Cons.prems c rp have rw: "r = Inl x" "w' = w1" by simp_all
    from rc Inl obtain tail where t: "pools w1 = pools w @ tail"
      and ab: "aborted P R devs c (length (pools w)) (arrival w) x tail"
      unfolding aborted_def c by (simp only: sum.case fst_conv snd_conv) blast
    from rc have "arrival w1 = arrival w" "saved w1 = saved w" by simp_all
    from loop_outcome_abort [OF this t ab] rw show ?thesis by blast
  next
    case (Inr outs)
    with rc have ok: "list_all batch_ok (batches (fst c) (snd c) R devs)"
      and outs: "outs = concat (map (\<lambda>b. successes (map job b)) (batches f e R devs))"
      and p1: "pools w1 = pools w @ map (finished_pool P) (batches (fst c) (snd c) R devs)"
      and o1: "arrival w1 = arrival w" "saved w1 = saved w"
      by (simp_all add: c)
    obtain r2 w2 where ps: "persist nm f eid outs w1 = (r2, w2)"
      by (cases "persist nm f eid outs w1")
    note pe = persist_effect [OF ps]
    show ?thesis
    proof (cases r2)
      case (Inl x)
      with Cons.prems c rp ps \<open>r1 = Inr outs\<close> have rw: "r = Inl x" "w' = w2" by simp_all
      have ab: "aborted P R devs c (length (pools w)) (arrival w) x
                  (map (finished_pool P) (batches (fst c) (snd c) R devs))"
        using ok by (simp add: aborted_def)
      from pe Inl o1 p1 have "arrival w2 = arrival w" "saved w2 = saved w"
        "pools w2 = pools w @ map (finished_pool P) (batches (fst c) (snd c) R devs)"
        by simp_all
      from loop_outcome_abort [OF this ab] rw show ?thesis by blast
    next
      case (Inr u)
      with Cons.prems c rp ps \<open>r1 = Inr outs\<close>
      have rec: "full_run_loop nm R P devs cs (eid + 1) w2 = (r, w')" by simp
      from Cons.IH [OF rec] obtain k tail where
        lo: "loop_outcome nm R P devs cs (eid + 1) w2 r w' k tail" by blast
      from pe Inr obtain ident where ni: "neutral_identifier (fst c) = Inr ident"
        and s2: "saved w2 = saved w1 @ [((ident, process_outputs outs), file_path nm eid)]"
        by (auto simp: c)
      have s2': "saved w2 = saved w @ [((ident, bundle_results (fst c) (snd c) R devs), file_path nm eid)]"
        using s2 o1 outs by (simp add: bundle_results_def c)
      from pe p1 o1 have p2: "pools w2 = pools w @ map (finished_pool P) (batches (fst c) (snd c) R devs)"
        and a2: "arrival w2 = arrival w" by simp_all
      from loop_outcome_Suc [OF ok p2 a2 ni s2' lo] show ?thesis by blast
    qed
  qed
qed


lemma concat_blocks:
  "concat (map (\<lambda>p. map (\<lambda>i. p * n + i) [0..<n]) [0..<D]) = [0..<n * D]"
proof (induction D)
  case 0
  then show ?case by simp
next
  case (Suc D)
  have "map (\<lambda>i. D * n + i) [0..<n] = map (\<lambda>i. i + D * n) [0..<n]"
    by (simp add: add.commute)
  also have "\<dots> = [D * n..<n + D * n]" by (rule map_add_upt)
  finally have blk: "map (\<lambda>i. D * n + i) [0..<n] = [n * D..<n * D + n]"
    by (simp add: mult.commute add.commute)
  have "[0..<n * D + n] = [0..<n * D] @ [n * D..<n * D + n]"
    by (rule upt_add_eq_append) simp
  moreover have "n * Suc D = n * D + n" by simp
  ultimately have "[0..<n * Suc D] = [0..<n * D] @ [n * D..<n * D + n]"
    by (simp only:)
  with Suc blk show ?case by (simp del: mult_Suc_right)
qed

lemma job_arguments_seeds:
  "map (\<lambda>a. fst (snd a)) (job_arguments f e R p d) = map int (map (\<lambda>i. p * nat R + i) [0..<nat R])"
proof (cases "0 \<le> R")
  case True
  then have "int p * R = int (p * nat R)" by simp
  then show ?thesis
    by (simp add: job_arguments_def py_range_def comp_def)
next
  case False
  then show ?thesis by (simp add: job_arguments_def py_range_def)
qed

lemma enumerate_seeds:
  "map (\<lambda>a. fst (snd a)) (concat (map (\<lambda>(p, d). job_arguments f e R p d) (enumerate k devs))) =
   map int (concat (map (\<lambda>p. map (\<lambda>i. p * nat R + i) [0..<nat R]) [k..<k + length devs]))"
proof (induction devs arbitrary: k)
  case Nil
  then show ?case by simp
next
  case (Cons d devs)
  have u: "[k..<k + length (d # devs)] = k # [Suc k..<Suc k + length devs]"
    by (simp add: upt_conv_Cons del: upt_Suc)
  show ?case
    unfolding u using Cons.IH [of "Suc k"]
    by (simp add: job_arguments_seeds del: upt_Suc)
qed

lemma batches_seeds:
  "map (\<lambda>a. fst (snd a)) (concat (batches f e R devs)) = map int [0..<nat R * length devs]"
  using enumerate_seeds [of f e R 0 devs]
  by (simp add: batches_def concat_blocks)

lemma batches_seed_set:
  "set (map (\<lambda>a. fst (snd a)) (concat (batches f e R devs))) = {0..<R * int (length devs)}"
proof (cases "0 \<le> R")
  case True
  have "int ` {0..<nat R * length devs} = {int 0..<int (nat R * length devs)}"
    by (rule image_int_atLeastLessThan)
  with True show ?thesis
    unfolding batches_seeds by simp
next
  case False
  then have "R * int (length devs) \<le> 0"
    by (simp add: mult_le_0_iff)
  with False show ?thesis
    unfolding batches_seeds by simp
qed

lemma batches_nth:
  "p < length devs \<Longrightarrow> batches f e R devs ! p = job_arguments f e R p (devs ! p)"
  by (simp add: batches_def nth_enumerate_eq)

lemma new_pools_batches:
  assumes "loop_outcome nm R P devs cs eid w r w' k tail"
  shows "\<exists>k'. k' \<le> length cs \<and> k \<le> k' \<and>
           map submitted (drop (length (pools w)) (pools w')) =
             map (\<lambda>b. [b]) (concat (map (\<lambda>c. batches (fst c) (snd c) R devs) (take k' cs)))
           \<and> (r = Inr () \<longrightarrow> k' = length cs)"
proof -
  let ?fin = "concat (map (\<lambda>c. map (finished_pool P) (batches (fst c) (snd c) R devs)) (take k cs))"
  let ?bs = "\<lambda>k. concat (map (\<lambda>c. batches (fst c) (snd c) R devs) (take k cs))"
  from assms have pw: "pools w' = pools w @ ?fin @ tail" and kl: "k \<le> length cs"
    by (simp_all add: loop_outcome_def)
  have fin: "map submitted ?fin = map (\<lambda>b. [b]) (?bs k)"
    by (simp add: map_concat comp_def finished_pool_def)
  have d: "map submitted (drop (length (pools w)) (pools w')) = map (\<lambda>b. [b]) (?bs k) @ map submitted tail"
    using pw fin by simp
  show ?thesis
  proof (cases r)
    case (Inr u)
    with assms have "k = length cs" "tail = []" by (simp_all add: loop_outcome_def)
    with d show ?thesis by auto
  next
    case (Inl x)
    with assms have k: "k < length cs"
      and ab: "aborted P R devs (cs ! k) (length (pools w) + k * length devs) (arrival w) x tail"
      by (simp_all add: loop_outcome_def)
    let ?b = "batches (fst (cs ! k)) (snd (cs ! k)) R devs"
    from ab have "tail = [] \<or> map submitted tail = map (\<lambda>b. [b]) ?b"
      unfolding aborted_def
      by (auto simp: finished_pool_def submitted_pool_def comp_def)
    then show ?thesis
    proof
      assume "tail = []"
      with d kl Inl show ?thesis by auto
    next
      assume t: "map submitted tail = map (\<lambda>b. [b]) ?b"
      have "?bs (Suc k) = ?bs k @ ?b"
        using k by (simp add: take_Suc_conv_app_nth)
      with d t have "map submitted (drop (length (pools w)) (pools w')) = map (\<lambda>b. [b]) (?bs (Suc k))"
        by simp
      with k Inl show ?thesis
        by (intro exI [of _ "Suc k"]) simp
    qed
  qed
qed

lemma loop_outcome_saved_length:
  assumes "loop_outcome nm R P devs cs eid w r w' k tail"
  shows "length (saved w') = length (saved w) + k"
proof -
  from assms have "map snd (saved w') =
      map snd (saved w) @ map (\<lambda>i. file_path nm (eid + int i)) [0..<k]"
    by (simp add: loop_outcome_def)
  then have "length (map snd (saved w')) =
      length (map snd (saved w) @ map (\<lambda>i. file_path nm (eid + int i)) [0..<k])"
    by simp
  then show ?thesis by simp
qed

lemma loop_outcome_saved_nth:
  assumes lo: "loop_outcome nm R P devs cs eid w r w' k tail" and i: "i < k"
  shows "snd (saved w' ! (length (saved w) + i)) = file_path nm (eid + int i)"
    and "snd (fst (saved w' ! (length (saved w) + i))) =
           bundle_results (fst (cs ! i)) (snd (cs ! i)) R devs"
    and "Inr (fst (fst (saved w' ! (length (saved w) + i)))) = neutral_identifier (fst (cs ! i))"
proof -
  let ?n = "length (saved w)"
  from loop_outcome_saved_length [OF lo] i have n: "?n + i < length (saved w')" by simp
  from lo have kl: "k \<le> length cs" by (simp add: loop_outcome_def)
  from lo have "map snd (saved w') =
      map snd (saved w) @ map (\<lambda>i. file_path nm (eid + int i)) [0..<k]"
    by (simp add: loop_outcome_def)
  then have "map snd (saved w') ! (?n + i) =
      (map snd (saved w) @ map (\<lambda>i. file_path nm (eid + int i)) [0..<k]) ! (?n + i)"
    by simp
  with n i show "snd (saved w' ! (?n + i)) = file_path nm (eid + int i)"
    by (simp add: nth_append)
  from lo have "map (\<lambda>s. snd (fst s)) (saved w') =
        map (\<lambda>s. snd (fst s)) (saved w) @
        map (\<lambda>c. bundle_results (fst c) (snd c) R devs) (take k cs)"
    by (simp add: loop_outcome_def)
  then have "map (\<lambda>s. snd (fst s)) (saved w') ! (?n + i) =
        (map (\<lambda>s. snd (fst s)) (saved w) @
         map (\<lambda>c. bundle_results (fst c) (snd c) R devs) (take k cs)) ! (?n + i)"
    by simp
  with n i kl show "snd (fst (saved w' ! (?n + i))) =
           bundle_results (fst (cs ! i)) (snd (cs ! i)) R devs"
    by (simp add: nth_append)
  from lo have "map (\<lambda>s. Inr (fst (fst s))) (saved w') =
        map (\<lambda>s. Inr (fst (fst s))) (saved w) @ map (\<lambda>c. neutral_identifier (fst c)) (take k cs)"
    by (simp add: loop_outcome_def)
  then have "map (\<lambda>s. Inr (fst (fst s))) (saved w') ! (?n + i) =
        (map (\<lambda>s. Inr (fst (fst s))) (saved w) @
         map (\<lambda>c. neutral_identifier (fst c)) (take k cs)) ! (?n + i)"
    by simp
  with n i kl show "Inr (fst (fst (saved w' ! (?n + i)))) = neutral_identifier (fst (cs ! i))"
    by (simp add: nth_append)
qed

lemma loop_outcome_ok_nth:
  assumes lo: "loop_outcome nm R P devs cs eid w r w' k tail" and i: "i < k"
  shows "list_all batch_ok (batches (fst (cs ! i)) (snd (cs ! i)) R devs)"
proof -
  from lo have kl: "k \<le> length cs"
    and "list_all (\<lambda>c. list_all batch_ok (batches (fst c) (snd c) R devs)) (take k cs)"
    by (simp_all add: loop_outcome_def)
  then have "\<forall>j < length (take k cs). list_all batch_ok (batches (fst (take k cs ! j)) (snd (take k cs ! j)) R devs)"
    by (simp add: list_all_length)
  with i kl show ?thesis by simp
qed

lemma successes_all:
  "failures rs = [] \<Longrightarrow> map Inr (successes rs) = rs"
  by (induction rs) (auto split: sum.splits)

lemma batches_ok_jobs:
  "list_all batch_ok bs \<Longrightarrow>
   map job (concat bs) = map Inr (concat (map (\<lambda>b. successes (map job b)) bs))"
proof (induction bs)
  case Nil
  then show ?case by simp
next
  case (Cons b bs)
  then have "map Inr (successes (map job b)) = map job b"
    by (simp add: batch_ok_def successes_all)
  with Cons show ?case by simp
qed

lemma job_seed_device:
  "job a = Inr res \<Longrightarrow> result_seed_device res = args_seed_device a"
  by (cases a) (auto simp: result_seed_device_def args_seed_device_def split: sum.splits)

lemma jobs_seed_device:
  "map job as = map Inr outs \<Longrightarrow> map result_seed_device outs = map args_seed_device as"
proof (induction as arbitrary: outs)
  case Nil
  then show ?case by simp
next
  case (Cons a as)
  then obtain res rest where o: "outs = res # rest" by (cases outs) auto
  with Cons.prems have "job a = Inr res" "map job as = map Inr rest" by simp_all
  with Cons.IH [of rest] o show ?case by (simp add: job_seed_device)
qed

lemma process_outputs_seed_device:
  "map result_seed_device (process_outputs outs) = map result_seed_device outs"
  by (simp add: process_outputs_def result_seed_device_def case_prod_unfold comp_def)

lemma enumerate_seed_device:
  "map args_seed_device (concat (map (\<lambda>(p, d). job_arguments f e R p d) (enumerate k devs))) =
   concat (map (\<lambda>(p, d). map (\<lambda>i. (int p * R + i, d)) (py_range R)) (enumerate k devs))"
  by (induction devs arbitrary: k)
     (simp_all add: job_arguments_def args_seed_device_def comp_def)

lemma batches_seed_device:
  "map args_seed_device (concat (batches f e R devs)) =
   concat (map (\<lambda>(p, d). map (\<lambda>i. (int p * R + i, d)) (py_range R)) (enumerate 0 devs))"
  by (simp add: batches_def enumerate_seed_device)

lemma example_run_ok:
  "fst (full_run example_experiment 3 2 [''A'', ''B''] (EpochsInt 5) empty_world) = Inr ()"
  by code_simp

lemma example_sweep_length: "length (sweep example_experiment (EpochsInt 5)) = 2"
  by code_simp

lemma example_batches_seeds:
  "map (map (map args_seed_device))
     (map (\<lambda>b. [b]) (concat (map (\<lambda>c. batches (fst c) (snd c) 3 [''A'', ''B''])
                                  (take 2 (sweep example_experiment (EpochsInt 5)))))) =
   [[[(0, ''A''), (1, ''A''), (2, ''A'')]], [[(3, ''B''), (4, ''B''), (5, ''B'')]],
    [[(0, ''A''), (1, ''A''), (2, ''A'')]], [[(3, ''B''), (4, ''B''), (5, ''B'')]]]"
  by code_simp

text \<open>
  Claim C2. Whatever the outcome of \<^verbatim>\<open>full_run\<close>, the pools it has created hold,
  in the order of their creation, one batch each: the batches of the first
  configuration, device by device, then those of the second, and so on, for all the
  configurations when it returns normally. A configuration has one batch per device;
  the batch of the device at position \<open>p\<close> is the list of the jobs with the seeds
  \<open>p * n_runs_per_device + i\<close> for \<open>i\<close> in \<^verbatim>\<open>range(n_runs_per_device)\<close>, on that
  device; and the seeds of all the batches of a configuration are exactly the
  integers from 0 up to, and without, \<open>n_runs_per_device * length devices_list\<close>.
\<close>

theorem seed_partitioning:
  assumes "full_run exp R P devs ea w = (r, w')"
  shows "(\<exists>k \<le> length (sweep exp ea).
            map submitted (drop (length (pools w)) (pools w')) =
              map (\<lambda>b. [b]) (concat (map (\<lambda>c. batches (fst c) (snd c) R devs) (take k (sweep exp ea))))
            \<and> (r = Inr () \<longrightarrow> k = length (sweep exp ea)))
       \<and> (\<forall>f e. length (batches f e R devs) = length devs
            \<and> (\<forall>p < length devs.
                  batches f e R devs ! p = map (\<lambda>i. (f, int p * R + i, devs ! p, e)) (py_range R))
            \<and> set (map (\<lambda>a. fst (snd a)) (concat (batches f e R devs))) = {0..<R * int (length devs)})"
proof -
  from assms full_run_loop_outcome [of "name exp" R P devs "sweep exp ea" 0 w r w']
  obtain k tail where "loop_outcome (name exp) R P devs (sweep exp ea) 0 w r w' k tail"
    by (auto simp: full_run_def)
  from new_pools_batches [OF this] have 1: "\<exists>k \<le> length (sweep exp ea).
            map submitted (drop (length (pools w)) (pools w')) =
              map (\<lambda>b. [b]) (concat (map (\<lambda>c. batches (fst c) (snd c) R devs) (take k (sweep exp ea))))
            \<and> (r = Inr () \<longrightarrow> k = length (sweep exp ea))"
    by blast
  have 2: "\<forall>f e. length (batches f e R devs) = length devs
            \<and> (\<forall>p < length devs.
                  batches f e R devs ! p = map (\<lambda>i. (f, int p * R + i, devs ! p, e)) (py_range R))
            \<and> set (map (\<lambda>a. fst (snd a)) (concat (batches f e R devs))) = {0..<R * int (length devs)}"
    by (intro allI conjI length_batches batches_seed_set)
       (simp add: batches_nth job_arguments_def)
  from 1 2 show ?thesis by blast
qed


theorem seed_partitioning_witness:
  "map (map (map args_seed_device))
     (map submitted (drop (length (pools empty_world))
        (pools (snd (full_run example_experiment 3 2 [''A'', ''B''] (EpochsInt 5) empty_world))))) =
   [[[(0, ''A''), (1, ''A''), (2, ''A'')]], [[(3, ''B''), (4, ''B''), (5, ''B'')]],
    [[(0, ''A''), (1, ''A''), (2, ''A'')]], [[(3, ''B''), (4, ''B''), (5, ''B'')]]]"
proof -
  let ?run = "full_run example_experiment 3 2 [''A'', ''B''] (EpochsInt 5) empty_world"
  have h: "?run = (fst ?run, snd ?run)" by simp
  from seed_partitioning [OF h] obtain k where
    k: "map submitted (drop (length (pools empty_world)) (pools (snd ?run))) =
          map (\<lambda>b. [b]) (concat (map (\<lambda>c. batches (fst c) (snd c) 3 [''A'', ''B''])
                                     (take k (sweep example_experiment (EpochsInt 5)))))"
    and r: "fst ?run = Inr () \<longrightarrow> k = length (sweep example_experiment (EpochsInt 5))"
    by blast
  from r have "k = 2" by (simp add: example_run_ok example_sweep_length)
  with k show ?thesis by (simp only: example_batches_seeds)
qed

lemma example_bundle_seeds:
  "concat (map (\<lambda>(p, d). map (\<lambda>i. (int p * 3 + i, d)) (py_range 3)) (enumerate 0 [''A'', ''B''])) =
   [(0, ''A''), (1, ''A''), (2, ''A''), (3, ''B''), (4, ''B''), (5, ''B'')]"
  by code_simp

text \<open>
  Claim C3. Every bundle that \<^verbatim>\<open>full_run\<close> persists, one for each of the first
  \<open>k\<close> configurations (all of them when it returns normally), holds the processed
  results of the jobs of that configuration in the order of the concatenated
  batches: the devices in the order of \<^verbatim>\<open>devices_list\<close> and, for one device, the
  jobs in the order of their submission, so that the seeds and devices of the results
  are \<open>(p * n_runs_per_device + i, device p)\<close> with \<open>p\<close> and then \<open>i\<close> ascending.
\<close>

theorem results_order:
  assumes "full_run exp R P devs ea w = (r, w')"
  shows "\<exists>k \<le> length (sweep exp ea).
           (r = Inr () \<longrightarrow> k = length (sweep exp ea))
         \<and> length (saved w') = length (saved w) + k
         \<and> (\<forall>i < k. \<exists>outs.
               map job (concat (batches (fst (sweep exp ea ! i)) (snd (sweep exp ea ! i)) R devs)) =
                 map Inr outs
             \<and> snd (fst (saved w' ! (length (saved w) + i))) = process_outputs outs
             \<and> map result_seed_device (snd (fst (saved w' ! (length (saved w) + i)))) =
                 concat (map (\<lambda>(p, d). map (\<lambda>i. (int p * R + i, d)) (py_range R))
                           (enumerate 0 devs)))"
proof -
  let ?cs = "sweep exp ea"
  from assms full_run_loop_outcome [of "name exp" R P devs ?cs 0 w r w']
  obtain k tail where lo: "loop_outcome (name exp) R P devs ?cs 0 w r w' k tail"
    by (auto simp: full_run_def)
  then have kl: "k \<le> length ?cs" and rk: "r = Inr () \<longrightarrow> k = length ?cs"
    by (auto simp: loop_outcome_def)
  have each: "\<exists>outs.
               map job (concat (batches (fst (?cs ! i)) (snd (?cs ! i)) R devs)) = map Inr outs
             \<and> snd (fst (saved w' ! (length (saved w) + i))) = process_outputs outs
             \<and> map result_seed_device (snd (fst (saved w' ! (length (saved w) + i)))) =
                 concat (map (\<lambda>(p, d). map (\<lambda>i. (int p * R + i, d)) (py_range R))
                           (enumerate 0 devs))" if i: "i < k" for i
  proof -
    let ?bs = "batches (fst (?cs ! i)) (snd (?cs ! i)) R devs"
    let ?outs = "concat (map (\<lambda>b. successes (map job b)) ?bs)"
    have j: "map job (concat ?bs) = map Inr ?outs"
      using loop_outcome_ok_nth [OF lo i] by (rule batches_ok_jobs)
    have s: "snd (fst (saved w' ! (length (saved w) + i))) = process_outputs ?outs"
      using loop_outcome_saved_nth(2) [OF lo i] by (simp add: bundle_results_def)
    have "map result_seed_device (process_outputs ?outs) = map args_seed_device (concat ?bs)"
      using jobs_seed_device [OF j] by (simp add: process_outputs_seed_device)
    with s have "map result_seed_device (snd (fst (saved w' ! (length (saved w) + i)))) =
                 concat (map (\<lambda>(p, d). map (\<lambda>i. (int p * R + i, d)) (py_range R))
                           (enumerate 0 devs))"
      by (simp add: batches_seed_device)
    with j s show ?thesis by blast
  qed
  from kl rk loop_outcome_saved_length [OF lo] each show ?thesis by blast
qed

theorem results_order_witness:
  "map result_seed_device
     (snd (fst (saved (snd (full_run example_experiment 3 2 [''A'', ''B''] (EpochsInt 5) empty_world)) !
                 (length (saved empty_world) + 1)))) =
   [(0, ''A''), (1, ''A''), (2, ''A''), (3, ''B''), (4, ''B''), (5, ''B'')]"
proof -
  let ?run = "full_run example_experiment 3 2 [''A'', ''B''] (EpochsInt 5) empty_world"
  have h: "?run = (fst ?run, snd ?run)" by simp
  from results_order [OF h] obtain k where
    r: "fst ?run = Inr () \<longrightarrow> k = length (sweep example_experiment (EpochsInt 5))"
    and each: "\<forall>i < k. \<exists>outs.
               map job (concat (batches (fst (sweep example_experiment (EpochsInt 5) ! i))
                                  (snd (sweep example_experiment (EpochsInt 5) ! i)) 3 [''A'', ''B''])) =
                 map Inr outs
             \<and> snd (fst (saved (snd ?run) ! (length (saved empty_world) + i))) = process_outputs outs
             \<and> map result_seed_device (snd (fst (saved (snd ?run) ! (length (saved empty_world) + i)))) =
                 concat (map (\<lambda>(p, d). map (\<lambda>i. (int p * 3 + i, d)) (py_range 3))
                           (enumerate 0 [''A'', ''B'']))"
    by blast
  from r have "k = 2" by (simp add: example_run_ok example_sweep_length)
  then have "1 < k" by simp
  with each have "map result_seed_device (snd (fst (saved (snd ?run) ! (length (saved empty_world) + 1)))) =
                 concat (map (\<lambda>(p, d). map (\<lambda>i. (int p * 3 + i, d)) (py_range 3))
                           (enumerate 0 [''A'', ''B'']))"
    by blast
  then show ?thesis by (simp only: example_bundle_seeds)
qed

lemma digit_char_inject:
  assumes "a < 10" "b < 10" "digit_char a = digit_char b"
  shows "a = b"
proof -
  from assms(3) have "of_char (char_of (48 + a)) = (of_char (char_of (48 + b)) :: nat)"
    by (simp add: digit_char_def)
  then have "(48 + a) mod 256 = (48 + b) mod 256" by simp
  with assms(1,2) show ?thesis by simp
qed

lemma str_nat_nonempty: "str_nat n \<noteq> []"
  by (subst str_nat.simps) simp

lemma str_nat_inject: "str_nat n = str_nat m \<Longrightarrow> n = m"
proof (induction n arbitrary: m rule: str_nat.induct)
  case (1 n)
  show ?case
  proof (cases "n < 10")
    case True
    show ?thesis
    proof (cases "m < 10")
      case m: True
      from "1.prems" True m have "digit_char n = digit_char m"
        by (subst (asm) str_nat.simps, subst (asm) (2) str_nat.simps) simp
      with True m show ?thesis by (rule digit_char_inject)
    next
      case m: False
      from "1.prems" True m have "[digit_char n] = str_nat (m div 10) @ [digit_char (m mod 10)]"
        by (subst (asm) str_nat.simps, subst (asm) (2) str_nat.simps) simp
      then have "str_nat (m div 10) = []" by simp
      with str_nat_nonempty show ?thesis by blast
    qed
  next
    case False
    show ?thesis
    proof (cases "m < 10")
      case m: True
      from "1.prems" False m have "str_nat (n div 10) @ [digit_char (n mod 10)] = [digit_char m]"
        by (subst (asm) str_nat.simps, subst (asm) (2) str_nat.simps) simp
      then have "str_nat (n div 10) = []" by simp
      with str_nat_nonempty show ?thesis by blast
    next
      case m: False
      from "1.prems" False m
      have "str_nat (n div 10) @ [digit_char (n mod 10)] = str_nat (m div 10) @ [digit_char (m mod 10)]"
        by (subst (asm) str_nat.simps, subst (asm) (2) str_nat.simps) simp
      then have a: "str_nat (n div 10) = str_nat (m div 10)"
        and b: "digit_char (n mod 10) = digit_char (m mod 10)"
        by simp_all
      from "1.IH" [OF False a] have d: "n div 10 = m div 10" .
      have "n mod 10 < 10" "m mod 10 < 10" by simp_all
      from digit_char_inject [OF this b] have e: "n mod 10 = m mod 10" .
      have "n = 10 * (n div 10) + n mod 10" by simp
      also have "\<dots> = 10 * (m div 10) + m mod 10" using d e by simp
      also have "\<dots> = m" by simp
      finally show ?thesis .
    qed
  qed
qed

lemma file_path_inject: "file_path nm (int i) = file_path nm (int j) \<Longrightarrow> i = j"
  by (simp add: file_path_def str_int_def str_nat_inject)

lemma file_paths_distinct: "distinct (map (\<lambda>i. file_path nm (int i)) [0..<k])"
  by (simp add: distinct_map inj_on_def file_path_inject)

lemma example_paths:
  "map (\<lambda>i. ''./outputs/'' @ name example_experiment @ ''/experiment_'' @ str_int (int i)) [0..<2] =
   [''./outputs/e/experiment_0'', ''./outputs/e/experiment_1'']"
  by code_simp

text \<open>
  Claim C5. \<^verbatim>\<open>full_run\<close> leaves what was stored before in place and adds one
  bundle for each of the first \<open>k\<close> configurations of the sweep, all of them when
  it returns normally: the bundle of configuration \<open>i\<close> is stored under
  \<^verbatim>\<open>./outputs/<name>/experiment_<i>\<close>, the paths are pairwise distinct, and it
  holds the identifier of the instance built with seed 0 on the cpu device and the
  processed results of the configuration. The sweep has one configuration per
  simulation factory, unless the list of epoch counts is empty.
\<close>

theorem one_bundle_per_configuration:
  assumes "full_run exp R P devs ea w = (r, w')"
  shows "\<exists>k \<le> length (sweep exp ea).
           (r = Inr () \<longrightarrow> k = length (sweep exp ea))
         \<and> take (length (saved w)) (saved w') = saved w
         \<and> map snd (drop (length (saved w)) (saved w')) =
             map (\<lambda>i. ''./outputs/'' @ name exp @ ''/experiment_'' @ str_int (int i)) [0..<k]
         \<and> distinct (map snd (drop (length (saved w)) (saved w')))
         \<and> (\<forall>i < k.
               Inr (fst (fst (saved w' ! (length (saved w) + i)))) =
                 neutral_identifier (fst (sweep exp ea ! i))
             \<and> snd (fst (saved w' ! (length (saved w) + i))) =
                 bundle_results (fst (sweep exp ea ! i)) (snd (sweep exp ea ! i)) R devs)
         \<and> length (sweep exp ea) =
             (if epochs_list ea = [] then 0 else length (simulation_factories exp))"
proof -
  let ?cs = "sweep exp ea"
  from assms full_run_loop_outcome [of "name exp" R P devs ?cs 0 w r w']
  obtain k tail where lo: "loop_outcome (name exp) R P devs ?cs 0 w r w' k tail"
    by (auto simp: full_run_def)
  then have kl: "k \<le> length ?cs" and rk: "r = Inr () \<longrightarrow> k = length ?cs"
    and pre: "take (length (saved w)) (saved w') = saved w"
    and ms: "map snd (saved w') = map snd (saved w) @ map (\<lambda>i. file_path (name exp) (0 + int i)) [0..<k]"
    by (auto simp: loop_outcome_def)
  have "map snd (drop (length (saved w)) (saved w')) = drop (length (saved w)) (map snd (saved w'))"
    by (simp add: drop_map)
  also have "\<dots> = map (\<lambda>i. file_path (name exp) (int i)) [0..<k]"
    unfolding ms by simp
  finally have paths: "map snd (drop (length (saved w)) (saved w')) =
      map (\<lambda>i. file_path (name exp) (int i)) [0..<k]" .
  have d: "distinct (map snd (drop (length (saved w)) (saved w')))"
    unfolding paths by (rule file_paths_distinct)
  have paths': "map snd (drop (length (saved w)) (saved w')) =
             map (\<lambda>i. ''./outputs/'' @ name exp @ ''/experiment_'' @ str_int (int i)) [0..<k]"
    using paths by (simp add: file_path_def outputs_prefix_def)
  have each: "\<forall>i < k.
               Inr (fst (fst (saved w' ! (length (saved w) + i)))) = neutral_identifier (fst (?cs ! i))
             \<and> snd (fst (saved w' ! (length (saved w) + i))) =
                 bundle_results (fst (?cs ! i)) (snd (?cs ! i)) R devs"
    using loop_outcome_saved_nth(2,3) [OF lo] by blast
  from kl rk pre paths' d each length_sweep [of exp ea] show ?thesis by blast
qed

theorem one_bundle_per_configuration_witness:
  "map snd (drop (length (saved empty_world))
     (saved (snd (full_run example_experiment 3 2 [''A'', ''B''] (EpochsInt 5) empty_world)))) =
   [''./outputs/e/experiment_0'', ''./outputs/e/experiment_1'']"
proof -
  let ?run = "full_run example_experiment 3 2 [''A'', ''B''] (EpochsInt 5) empty_world"
  have h: "?run = (fst ?run, snd ?run)" by simp
  from one_bundle_per_configuration [OF h] obtain k where
    r: "fst ?run = Inr () \<longrightarrow> k = length (sweep example_experiment (EpochsInt 5))"
    and p: "map snd (drop (length (saved empty_world)) (saved (snd ?run))) =
             map (\<lambda>i. ''./outputs/'' @ name example_experiment @ ''/experiment_'' @ str_int (int i)) [0..<k]"
    by blast
  from r have "k = 2" by (simp add: example_run_ok example_sweep_length)
  with p show ?thesis by (simp only: example_paths)
qed

lemma length_finished_pools:
  "length (concat (map (\<lambda>c. map (finished_pool P) (batches (fst c) (snd c) R devs)) cs)) =
   length cs * length devs"
  by (induction cs) (simp_all add: length_batches)

lemma finished_pools_closed:
  "list_all (\<lambda>q. state q = CLOSE \<and> joined q \<and> length (submitted q) = 1)
     (concat (map (\<lambda>c. map (finished_pool P) (batches (fst c) (snd c) R devs)) cs))"
  by (induction cs) (auto simp: list_all_iff finished_pool_def)

lemma failure_reported:
  assumes "\<not> batch_ok b"
  shows "failures (map job b) ! (n mod length (failures (map job b))) \<in> set (failures (map job b))"
proof -
  from assms have "0 < length (failures (map job b))" by (simp add: batch_ok_def)
  then have "n mod length (failures (map job b)) < length (failures (map job b))"
    by (rule mod_less_divisor)
  then show ?thesis by (rule nth_mem)
qed

lemma aborted_split:
  assumes "aborted P R devs c base arr x tail"
  shows "\<exists>closed opn. tail = closed @ opn
     \<and> list_all (\<lambda>q. state q = CLOSE \<and> joined q \<and> length (submitted q) = 1) closed
     \<and> list_all (\<lambda>q. state q = RUN \<and> \<not> joined q \<and> length (submitted q) = 1) opn
     \<and> length (closed @ opn) \<le> length devs
     \<and> (opn \<noteq> [] \<longrightarrow> (\<exists>b. submitted (hd opn) = [b] \<and> x \<in> set (failures (map job b))))"
proof -
  let ?bs = "batches (fst c) (snd c) R devs"
  let ?fin = "\<lambda>q :: 'a pool. state q = CLOSE \<and> joined q \<and> length (submitted q) = 1"
  let ?opn = "\<lambda>q :: 'a pool. state q = RUN \<and> \<not> joined q \<and> length (submitted q) = 1"
  from assms consider
      (creation) "tail = []"
    | (collection) good bad rest where "?bs = good @ bad # rest" "\<not> batch_ok bad"
        "tail = map (finished_pool P) good @ map (submitted_pool P) (bad # rest)"
        "x = failures (map job bad) ! (arr (base + length good) mod length (failures (map job bad)))"
    | (persist) "tail = map (finished_pool P) ?bs"
    unfolding aborted_def by blast
  then show ?thesis
  proof cases
    case creation
    then have "tail = [] @ [] \<and> list_all ?fin [] \<and> list_all ?opn [] \<and>
        length ([] @ [] :: 'a pool list) \<le> length devs \<and>
        (([] :: 'a pool list) \<noteq> [] \<longrightarrow> (\<exists>b. submitted (hd []) = [b] \<and> x \<in> set (failures (map job b))))"
      by simp
    then show ?thesis by blast
  next
    case collection
    let ?c = "map (finished_pool P) good"
    let ?o = "map (submitted_pool P) (bad # rest)"
    have 1: "list_all ?fin ?c" by (simp add: list_all_iff finished_pool_def)
    have 2: "list_all ?opn ?o" by (simp add: list_all_iff submitted_pool_def)
    have "length (?c @ ?o) = length ?bs" unfolding collection(1) by simp
    then have 3: "length (?c @ ?o) \<le> length devs" by (simp only: length_batches)
    have "submitted (hd ?o) = [bad]" by (simp add: submitted_pool_def)
    moreover have "x \<in> set (failures (map job bad))"
      unfolding collection(4) using collection(2) by (rule failure_reported)
    ultimately have 4: "?o \<noteq> [] \<longrightarrow> (\<exists>b. submitted (hd ?o) = [b] \<and> x \<in> set (failures (map job b)))"
      by blast
    from collection(3) 1 2 3 4 show ?thesis by blast
  next
    case persist
    let ?c = "map (finished_pool P) ?bs"
    have 1: "list_all ?fin ?c" by (simp add: list_all_iff finished_pool_def)
    have "tail = ?c @ [] \<and> list_all ?fin ?c \<and> list_all ?opn [] \<and>
        length (?c @ []) \<le> length devs \<and>
        (([] :: 'a pool list) \<noteq> [] \<longrightarrow> (\<exists>b. submitted (hd []) = [b] \<and> x \<in> set (failures (map job b))))"
      using persist 1 by (simp add: length_batches)
    then show ?thesis by blast
  qed
qed

lemma failing_run_saved:
  "length (saved (snd (full_run failing_experiment 3 2 [''A'', ''B''] (EpochsInt 5) empty_world))) = 1"
  by code_simp

lemma failing_run_pools:
  "map (\<lambda>q. (state q, joined q, map (map args_seed_device) (submitted q)))
     (pools (snd (full_run failing_experiment 3 2 [''A'', ''B''] (EpochsInt 5) empty_world))) =
   [(CLOSE, True, [[(0, ''A''), (1, ''A''), (2, ''A'')]]),
    (CLOSE, True, [[(3, ''B''), (4, ''B''), (5, ''B'')]]),
    (CLOSE, True, [[(0, ''A''), (1, ''A''), (2, ''A'')]]),
    (RUN, False, [[(3, ''B''), (4, ''B''), (5, ''B'')]])]"
  by code_simp


text \<open>
  Claim C4. When \<^verbatim>\<open>full_run\<close> stops, normally or by an exception, the pools it
  has created are, in order: the pools of the \<open>k\<close> configurations whose bundles are
  persisted, then the pools \<open>closed\<close> and \<open>opn\<close> of at most one more configuration.
  The former and \<open>closed\<close> are closed and joined; the pools of \<open>opn\<close> are still
  running. There are none of the latter two on a normal return, and a pool is left
  open only when the collection of the first of them raised the exception of one of
  its jobs. Every pool has been given exactly one batch, and the pools that existed
  before are untouched.
\<close>

theorem pool_cleanup:
  assumes "full_run exp R P devs ea w = (r, w')"
  shows "\<exists>k closed opn. k \<le> length (sweep exp ea)
     \<and> length (saved w') = length (saved w) + k
     \<and> pools w' = pools w @
         concat (map (\<lambda>c. map (finished_pool P) (batches (fst c) (snd c) R devs))
                   (take k (sweep exp ea))) @ closed @ opn
     \<and> list_all (\<lambda>q. state q = CLOSE \<and> joined q \<and> length (submitted q) = 1)
         (concat (map (\<lambda>c. map (finished_pool P) (batches (fst c) (snd c) R devs))
                    (take k (sweep exp ea))) @ closed)
     \<and> list_all (\<lambda>q. state q = RUN \<and> \<not> joined q \<and> length (submitted q) = 1) opn
     \<and> length (closed @ opn) \<le> length devs
     \<and> (r = Inr () \<longrightarrow> k = length (sweep exp ea) \<and> closed = [] \<and> opn = [])
     \<and> (opn \<noteq> [] \<longrightarrow>
          (\<exists>x b. r = Inl x \<and> submitted (hd opn) = [b] \<and> x \<in> set (failures (map job b))))"
proof -
  let ?cs = "sweep exp ea"
  let ?fin = "\<lambda>k. concat (map (\<lambda>c. map (finished_pool P) (batches (fst c) (snd c) R devs)) (take k ?cs))"
  from assms full_run_loop_outcome [of "name exp" R P devs ?cs 0 w r w']
  obtain k tail where lo: "loop_outcome (name exp) R P devs ?cs 0 w r w' k tail"
    by (auto simp: full_run_def)
  then have kl: "k \<le> length ?cs" and pw: "pools w' = pools w @ ?fin k @ tail"
    by (auto simp: loop_outcome_def)
  note sl = loop_outcome_saved_length [OF lo]
  show ?thesis
  proof (cases r)
    case (Inr u)
    with lo have "k = length ?cs" "tail = []" by (simp_all add: loop_outcome_def)
    with kl sl pw finished_pools_closed [of P R devs "take k ?cs"]
    have "k \<le> length ?cs \<and> length (saved w') = length (saved w) + k
       \<and> pools w' = pools w @ ?fin k @ [] @ []
       \<and> list_all (\<lambda>q. state q = CLOSE \<and> joined q \<and> length (submitted q) = 1) (?fin k @ [])
       \<and> list_all (\<lambda>q. state q = RUN \<and> \<not> joined q \<and> length (submitted q) = 1) []
       \<and> length ([] @ [] :: 'a pool list) \<le> length devs
       \<and> (r = Inr () \<longrightarrow> k = length ?cs \<and> ([] :: 'a pool list) = [] \<and> ([] :: 'a pool list) = [])
       \<and> (([] :: 'a pool list) \<noteq> [] \<longrightarrow>
          (\<exists>x b. r = Inl x \<and> submitted (hd []) = [b] \<and> x \<in> set (failures (map job b))))"
      by simp
    then show ?thesis by blast
  next
    case (Inl x)
    with lo have "aborted P R devs (?cs ! k) (length (pools w) + k * length devs) (arrival w) x tail"
      by (simp add: loop_outcome_def)
    from aborted_split [OF this] obtain closed opn where
      t: "tail = closed @ opn"
      and c: "list_all (\<lambda>q. state q = CLOSE \<and> joined q \<and> length (submitted q) = 1) closed"
      and o: "list_all (\<lambda>q. state q = RUN \<and> \<not> joined q \<and> length (submitted q) = 1) opn"
      and l: "length (closed @ opn) \<le> length devs"
      and f: "opn \<noteq> [] \<longrightarrow> (\<exists>b. submitted (hd opn) = [b] \<and> x \<in> set (failures (map job b)))"
      by blast
    have c': "list_all (\<lambda>q. state q = CLOSE \<and> joined q \<and> length (submitted q) = 1) (?fin k @ closed)"
      using c finished_pools_closed [of P R devs "take k ?cs"] by simp
    have r': "r = Inr () \<longrightarrow> k = length ?cs \<and> closed = [] \<and> opn = []"
      using Inl by simp
    have f': "opn \<noteq> [] \<longrightarrow>
          (\<exists>x b. r = Inl x \<and> submitted (hd opn) = [b] \<and> x \<in> set (failures (map job b)))"
      using f Inl by blast
    from pw t have pw': "pools w' = pools w @ ?fin k @ closed @ opn" by simp
    from kl sl pw' c' o l r' f' show ?thesis by blast
  qed
qed

theorem pool_cleanup_witness:
  "list_all (\<lambda>q. state q = CLOSE \<and> joined q \<and> length (submitted q) = 1)
     (take 2 (pools (snd (full_run failing_experiment 3 2 [''A'', ''B''] (EpochsInt 5) empty_world))))
   \<and> map (\<lambda>q. (state q, joined q, map (map args_seed_device) (submitted q)))
       (pools (snd (full_run failing_experiment 3 2 [''A'', ''B''] (EpochsInt 5) empty_world))) =
     [(CLOSE, True, [[(0, ''A''), (1, ''A''), (2, ''A'')]]),
      (CLOSE, True, [[(3, ''B''), (4, ''B''), (5, ''B'')]]),
      (CLOSE, True, [[(0, ''A''), (1, ''A''), (2, ''A'')]]),
      (RUN, False, [[(3, ''B''), (4, ''B''), (5, ''B'')]])]"
proof -
  let ?run = "full_run failing_experiment 3 2 [''A'', ''B''] (EpochsInt 5) empty_world"
  let ?cs = "sweep failing_experiment (EpochsInt 5)"
  let ?fin = "\<lambda>k. concat (map (\<lambda>c. map (finished_pool 2) (batches (fst c) (snd c) 3 [''A'', ''B''])) (take k ?cs))"
  have h: "?run = (fst ?run, snd ?run)" by simp
  from pool_cleanup [OF h] obtain k closed opn where
    kl: "k \<le> length ?cs"
    and sl: "length (saved (snd ?run)) = length (saved empty_world) + k"
    and pw: "pools (snd ?run) = pools empty_world @ ?fin k @ closed @ opn"
    and fin: "list_all (\<lambda>q. state q = CLOSE \<and> joined q \<and> length (submitted q) = 1) (?fin k @ closed)"
    by blast
  have e: "saved empty_world = []" "pools empty_world = []" by (simp_all add: empty_world_def)
  from sl have k: "k = 1" unfolding failing_run_saved e by simp
  have "length (?fin k) = 2"
    using kl k by (simp add: length_finished_pools)
  with pw have "take 2 (pools (snd ?run)) = ?fin k" unfolding e by simp
  with fin have "list_all (\<lambda>q. state q = CLOSE \<and> joined q \<and> length (submitted q) = 1)
     (take 2 (pools (snd ?run)))" by simp
  with failing_run_pools show ?thesis by blast
qed






end
